theory Spec2Isabelle
  imports Complex_Main
begin

section \<open>The agent swarm motion engine of ParticleSystem.js\<close>

text \<open>
  A shallow embedding of the swarm engine: the uniform grid \<open>SpatialGrid\<close>, the pairing
  pass \<open>_findPairs\<close>, the three force passes and the integration loop of \<open>update\<close>.
  JavaScript numbers are modelled as real numbers (no rounding, no NaN, no infinities),
  counters and indices as integers; \<open>partner = -1\<close> is the engine's "none".
  Every \<open>Math.random()\<close> call reads the next element of a stream \<open>rnd\<close>, whose position
  is the field \<open>rng\<close> of the engine state. An uncaught \<open>TypeError\<close> (a property read on
  \<open>undefined\<close>) is the result \<open>None\<close>.
\<close>

subsection \<open>Vector3 (the operations of three.js that the engine calls)\<close>

record Vector3 =
  vx :: real
  vy :: real
  vz :: real

definition Vec :: "real \<Rightarrow> real \<Rightarrow> real \<Rightarrow> Vector3" where
  "Vec a b c = \<lparr>vx = a, vy = b, vz = c\<rparr>"

definition zeroVec :: Vector3 where
  "zeroVec = Vec 0 0 0"

definition addVectors :: "Vector3 \<Rightarrow> Vector3 \<Rightarrow> Vector3" where
  "addVectors a b = Vec (vx a + vx b) (vy a + vy b) (vz a + vz b)"

definition subVectors :: "Vector3 \<Rightarrow> Vector3 \<Rightarrow> Vector3" where
  "subVectors a b = Vec (vx a - vx b) (vy a - vy b) (vz a - vz b)"

definition multiplyScalar :: "Vector3 \<Rightarrow> real \<Rightarrow> Vector3" where
  "multiplyScalar v s = Vec (vx v * s) (vy v * s) (vz v * s)"

definition addScaledVector :: "Vector3 \<Rightarrow> Vector3 \<Rightarrow> real \<Rightarrow> Vector3" where
  "addScaledVector this v s = Vec (vx this + vx v * s) (vy this + vy v * s) (vz this + vz v * s)"

definition lengthSq :: "Vector3 \<Rightarrow> real" where
  "lengthSq v = vx v * vx v + vy v * vy v + vz v * vz v"

definition vlength :: "Vector3 \<Rightarrow> real" where
  "vlength v = sqrt (lengthSq v)"

text \<open>\<open>divideScalar(s)\<close> is \<open>multiplyScalar(1 / s)\<close>; \<open>normalize()\<close> is
  \<open>divideScalar(length() || 1)\<close>, so the zero vector stays the zero vector.\<close>

definition divideScalar :: "Vector3 \<Rightarrow> real \<Rightarrow> Vector3" where
  "divideScalar v s = multiplyScalar v (1 / s)"

definition normalize :: "Vector3 \<Rightarrow> Vector3" where
  "normalize v = divideScalar v (if vlength v = 0 then 1 else vlength v)"

definition setLength :: "Vector3 \<Rightarrow> real \<Rightarrow> Vector3" where
  "setLength v l = multiplyScalar (normalize v) l"

definition lerp :: "Vector3 \<Rightarrow> Vector3 \<Rightarrow> real \<Rightarrow> Vector3" where
  "lerp this v alpha =
     Vec (vx this + (vx v - vx this) * alpha)
         (vy this + (vy v - vy this) * alpha)
         (vz this + (vz v - vz this) * alpha)"

definition distanceTo :: "Vector3 \<Rightarrow> Vector3 \<Rightarrow> real" where
  "distanceTo a b = vlength (subVectors a b)"

definition crossVectors :: "Vector3 \<Rightarrow> Vector3 \<Rightarrow> Vector3" where
  "crossVectors a b =
     Vec (vy a * vz b - vz a * vy b) (vz a * vx b - vx a * vz b) (vx a * vy b - vy a * vx b)"

definition setY :: "Vector3 \<Rightarrow> real \<Rightarrow> Vector3" where
  "setY v b = Vec (vx v) b (vz v)"

text \<open>The distance in the horizontal plane, which the specification calls planar.\<close>

definition planarDistance :: "Vector3 \<Rightarrow> Vector3 \<Rightarrow> real" where
  "planarDistance a b = sqrt ((vx a - vx b)\<^sup>2 + (vz a - vz b)\<^sup>2)"

subsection \<open>SpatialGrid\<close>

text \<open>
  The grid is a JavaScript \<open>Map\<close> from the key string \<open>"cx,cz"\<close> to the array of the
  indices pushed into that cell. The key is modelled as the pair of cell coordinates that
  the string prints. The quotient \<open>x / cellSize\<close> is the real quotient, so the model is the
  code for every cell size other than 0 (where JavaScript yields an infinity or NaN).
\<close>

datatype error = TypeError | RangeError

record SpatialGrid =
  cellSize :: real
  grid :: "int \<times> int \<Rightarrow> nat list option"

definition SpatialGrid_constructor :: "real \<Rightarrow> error + SpatialGrid" where
  "SpatialGrid_constructor c = Inr \<lparr>cellSize = c, grid = Map.empty\<rparr>"

definition SpatialGrid_hash :: "SpatialGrid \<Rightarrow> real \<Rightarrow> real \<Rightarrow> int \<times> int" where
  "SpatialGrid_hash g x z = (\<lfloor>x / cellSize g\<rfloor>, \<lfloor>z / cellSize g\<rfloor>)"

definition SpatialGrid_clear :: "SpatialGrid \<Rightarrow> SpatialGrid" where
  "SpatialGrid_clear g = g\<lparr>grid := Map.empty\<rparr>"

definition SpatialGrid_insert :: "SpatialGrid \<Rightarrow> nat \<Rightarrow> Vector3 \<Rightarrow> SpatialGrid" where
  "SpatialGrid_insert g index position =
     (let key = SpatialGrid_hash g (vx position) (vz position);
          cell = (case grid g key of None \<Rightarrow> [] | Some c \<Rightarrow> c)
      in g\<lparr>grid := (grid g)(key \<mapsto> cell @ [index])\<rparr>)"

definition cellAt :: "SpatialGrid \<Rightarrow> int \<times> int \<Rightarrow> nat list" where
  "cellAt g key = (case grid g key of None \<Rightarrow> [] | Some cell \<Rightarrow> cell)"

definition SpatialGrid_getNearby :: "SpatialGrid \<Rightarrow> Vector3 \<Rightarrow> real \<Rightarrow> nat list" where
  "SpatialGrid_getNearby g position radius =
     (let cells = \<lceil>radius / cellSize g\<rceil>;
          cx = \<lfloor>vx position / cellSize g\<rfloor>;
          cz = \<lfloor>vz position / cellSize g\<rfloor>
      in concat (map (\<lambda>dx. concat (map (\<lambda>dz. cellAt g (cx + dx, cz + dz)) [- cells..cells]))
                     [- cells..cells]))"

text \<open>Inserting a list of (index, position) entries, in order, into the cleared grid.\<close>

definition insertAll :: "SpatialGrid \<Rightarrow> (nat \<times> Vector3) list \<Rightarrow> SpatialGrid" where
  "insertAll g agents = fold (\<lambda>(i, p) h. SpatialGrid_insert h i p) agents g"

subsection \<open>Configuration, pairing state, peaks\<close>

text \<open>
  The fields of \<open>motionSystem\<close> that the engine reads. Frame counts are integers, all other
  tunables are reals. \<open>defaultMotion\<close> holds the values the constructor assigns.
\<close>

record config =
  followLerp :: real
  maxVelocity :: real
  swarmWeight :: real
  maxOffset :: real
  minSeparation :: real
  repulsionStrength :: real
  repulsionWeight :: real
  complementaryRange :: real
  complementaryPull :: real
  attractionWeight :: real
  pairFormRadius :: real
  pairKeepRadius :: real
  pairMinFrames :: int
  pairBreakProb :: real
  pairCooldown :: int
  pairDesiredSeparation :: real
  pairSeparationStrength :: real
  pairCohesionStrength :: real
  pairAlignmentStrength :: real
  pairTravelSpeed :: real
  pairHeadingSmoothing :: real
  pairHeadingJitter :: real
  pairJitterInterval :: int
  pairEaseFrames :: int
  breakGraceFrames :: int
  wanderStrength :: real
  wanderInPair :: real
  circularBias :: real
  explorationPairedScale :: real
  maxRange :: real
  avoidCenterRadius :: real
  avoidCenterStrength :: real
  pairingWeight :: real
  explorationWeight :: real
  headingTangentWeight :: real
  headingVelocityWeight :: real

definition defaultMotion :: config where
  "defaultMotion =
     \<lparr>followLerp = 0.05, maxVelocity = 1.5, swarmWeight = 0.20, maxOffset = 5.0,
      minSeparation = 30, repulsionStrength = 0.20, repulsionWeight = 0.4,
      complementaryRange = 35, complementaryPull = 0.008, attractionWeight = 0.2,
      pairFormRadius = 25, pairKeepRadius = 35, pairMinFrames = 480,
      pairBreakProb = 0.0003, pairCooldown = 240,
      pairDesiredSeparation = 25, pairSeparationStrength = 0.32,
      pairCohesionStrength = 0.5, pairAlignmentStrength = 3.2, pairTravelSpeed = 2.0,
      pairHeadingSmoothing = 0.04, pairHeadingJitter = 1, pairJitterInterval = 280,
      pairEaseFrames = 150, breakGraceFrames = 300,
      wanderStrength = 0.45, wanderInPair = 0.015, circularBias = 0.18,
      explorationPairedScale = 0.10, maxRange = 180,
      avoidCenterRadius = 50, avoidCenterStrength = 0.8,
      pairingWeight = 1.6, explorationWeight = 0.4,
      headingTangentWeight = 0.85, headingVelocityWeight = 0.15\<rparr>"

text \<open>
  One entry of \<open>_pairStates\<close>. The fields \<open>breakFrames\<close> and \<open>breakDir\<close> of the source
  object are written once at creation and never read; they are left out.
  \<open>breakThisFrame\<close> is absent (falsy) until \<open>update\<close> first assigns it.
\<close>

record PairState =
  partner :: int
  frames :: int
  cooldown :: int
  breakGrace :: int
  breakPartner :: int
  breakFade :: int
  breakHeading :: Vector3
  breakEase :: real
  breakThisFrame :: bool

definition newPairState :: PairState where
  "newPairState =
     \<lparr>partner = - 1, frames = 0, cooldown = 0, breakGrace = 0, breakPartner = - 1,
      breakFade = 0, breakHeading = zeroVec, breakEase = 1.0, breakThisFrame = False\<rparr>"

text \<open>
  A peak, with the fields the motion engine reads. An absent \<open>exploreSeed\<close> is 0 (the
  code reads \<open>peak.exploreSeed || 0\<close>), an absent \<open>evolvingLock\<close> is \<open>False\<close>.
\<close>

record peak =
  currentPyramidCenter :: Vector3
  categoryVisible :: bool
  exploreSeed :: real
  evolvingLock :: bool
  evolvingTargetCenter :: "Vector3 option"
  evolvingMoveSpeed :: "real option"

text \<open>A solid, reduced to \<open>userData.solution.actual_category\<close> and \<open>assigned_category\<close>.\<close>

record solid =
  actual_category :: "string option"
  assigned_category :: "string option"

record engine =
  peaks :: "peak list"
  time :: real
  updateInterval :: real
  frameCounter :: int
  targetLocked :: bool
  frozenSwarmPositions :: "Vector3 list option"
  evolvingActive :: bool
  categoryFilterActive :: bool
  stopAllMovement :: bool
  spatialGrid :: SpatialGrid
  peakSolids :: "solid list"
  motionSystem :: config
  pairStates :: "PairState list"
  lastPositions :: "Vector3 list"
  pairDirections :: "Vector3 option list"
  velocities :: "Vector3 list"
  rng :: nat

text \<open>Reading a JavaScript array: \<open>undefined\<close> outside the range.\<close>

definition arrayGet :: "'a list \<Rightarrow> int \<Rightarrow> 'a option" where
  "arrayGet xs i = (if 0 \<le> i \<and> i < int (length xs) then Some (xs ! nat i) else None)"

text \<open>Mutating the object stored at an index of an array.\<close>

definition modify :: "nat \<Rightarrow> ('a \<Rightarrow> 'a) \<Rightarrow> 'a list \<Rightarrow> 'a list" where
  "modify k f xs = xs[k := f (xs ! k)]"

text \<open>Assigning to an index of a JavaScript array with holes: the array grows as needed.\<close>

definition arraySet :: "'a option list \<Rightarrow> nat \<Rightarrow> 'a \<Rightarrow> 'a option list" where
  "arraySet xs k v =
     (if k < length xs then xs[k := Some v]
      else xs @ replicate (k - length xs) None @ [Some v])"

text \<open>A loop over indices whose body may throw.\<close>

fun forEach :: "('a \<Rightarrow> 's \<Rightarrow> 's option) \<Rightarrow> 'a list \<Rightarrow> 's \<Rightarrow> 's option" where
  "forEach body [] s = Some s"
| "forEach body (i # is) s =
     (case body i s of None \<Rightarrow> None | Some s' \<Rightarrow> forEach body is s')"

subsection \<open>The constructors\<close>

text \<open>
  \<open>initPeaks\<close> creates ten peaks on the x axis; \<open>seeds i\<close> is the \<open>Math.random()\<close> value
  drawn for the exploration seed of peak \<open>i\<close>. Grains, lights and scene objects are
  rendering state and are not modelled. The constructor takes a scene and a base radius
  for the grains; it has no parameter for the cell size or for any motion constant.
\<close>

definition initPeaks :: "(nat \<Rightarrow> real) \<Rightarrow> peak list" where
  "initPeaks seeds =
     map (\<lambda>i. \<lparr>currentPyramidCenter = Vec (real i * 30 - (10 * 30) / 2) 0 0,
                categoryVisible = True, exploreSeed = seeds i * 1000,
                evolvingLock = False, evolvingTargetCenter = None,
                evolvingMoveSpeed = None\<rparr>) [0..<10]"

definition ParticleSystem_constructor :: "(nat \<Rightarrow> real) \<Rightarrow> error + engine" where
  "ParticleSystem_constructor seeds =
     (case SpatialGrid_constructor 50 of
        Inl e \<Rightarrow> Inl e
      | Inr g \<Rightarrow>
          Inr \<lparr>peaks = initPeaks seeds, time = 0, updateInterval = 40, frameCounter = 0,
               targetLocked = False, frozenSwarmPositions = None, evolvingActive = False,
               categoryFilterActive = False, stopAllMovement = False, spatialGrid = g,
               peakSolids = [], motionSystem = defaultMotion, pairStates = [],
               lastPositions = [], pairDirections = [], velocities = [], rng = 0\<rparr>)"

subsection \<open>Changing the population: \<open>adjustPeakCount\<close>\<close>

text \<open>
  \<open>createSinglePeak\<close> pushes a peak without an exploration seed; \<open>removeSinglePeak\<close>
  splices one peak out of \<open>peaks\<close> (and its entry of the rendering array
  \<open>previousHeights\<close>); \<open>repositionPeaks\<close> then spreads the peaks on the x axis.
\<close>

definition createSinglePeak :: "nat \<Rightarrow> nat \<Rightarrow> engine \<Rightarrow> engine" where
  "createSinglePeak index totalPeaks st =
     st\<lparr>peaks := peaks st @
         [\<lparr>currentPyramidCenter = Vec (real index * 80 - (real totalPeaks * 80) / 2) 0 0,
           categoryVisible = True, exploreSeed = 0, evolvingLock = False,
           evolvingTargetCenter = None, evolvingMoveSpeed = None\<rparr>]\<rparr>"

definition removeSinglePeak :: "nat \<Rightarrow> engine \<Rightarrow> engine" where
  "removeSinglePeak index st =
     (if index \<ge> length (peaks st) then st
      else st\<lparr>peaks := take index (peaks st) @ drop (Suc index) (peaks st)\<rparr>)"

definition repositionPeaks :: "engine \<Rightarrow> engine" where
  "repositionPeaks st =
     st\<lparr>peaks :=
          map (\<lambda>(i, p). p\<lparr>currentPyramidCenter :=
                     (currentPyramidCenter p)\<lparr>vx := real i * 30 - (real (length (peaks st)) * 30) / 2\<rparr>\<rparr>)
              (zip [0..<length (peaks st)] (peaks st))\<rparr>"

definition adjustPeakCount :: "int \<Rightarrow> engine \<Rightarrow> engine" where
  "adjustPeakCount targetCount st =
     (if targetCount \<le> 0 then st
      else let currentCount = length (peaks st); target = nat targetCount in
        repositionPeaks
          (if target > currentCount
           then fold (\<lambda>i. createSinglePeak i target) [currentCount..<target] st
           else if target < currentCount
           then fold removeSinglePeak (rev [target..<currentCount]) st
           else st))"

subsection \<open>The start of a tick: growing the auxiliary arrays\<close>

text \<open>
  The three \<open>while (array.length < this.peaks.length) array.push(...)\<close> loops at the top
  of \<open>update\<close>. There is no loop for the opposite case.
\<close>

definition growTo :: "nat \<Rightarrow> 'a \<Rightarrow> 'a list \<Rightarrow> 'a list" where
  "growTo n d xs = xs @ replicate (n - length xs) d"

definition resizeAuxiliary :: "engine \<Rightarrow> engine" where
  "resizeAuxiliary st =
     st\<lparr>pairStates := growTo (length (peaks st)) newPairState (pairStates st),
        lastPositions := growTo (length (peaks st)) zeroVec (lastPositions st),
        velocities := growTo (length (peaks st)) zeroVec (velocities st)\<rparr>"

subsection \<open>The pairing pass: \<open>_findPairs\<close>\<close>

definition decayPairState :: "PairState \<Rightarrow> PairState" where
  "decayPairState state =
     (let s1 = (if cooldown state > 0 then state\<lparr>cooldown := cooldown state - 1\<rparr> else state)
      in if breakGrace s1 > 0
         then (let s2 = s1\<lparr>breakGrace := breakGrace s1 - 1\<rparr>
               in if breakGrace s2 = 0 then s2\<lparr>breakPartner := - 1\<rparr> else s2)
         else s1)"

definition rebuildGrid :: "engine \<Rightarrow> engine" where
  "rebuildGrid st =
     st\<lparr>spatialGrid :=
          insertAll (SpatialGrid_clear (spatialGrid st))
            (zip [0..<length (peaks st)] (map currentPyramidCenter (peaks st)))\<rparr>"

text \<open>
  One iteration of the distance-based break loop. The eight assignments are made in the
  order of the source, each on the object stored at its index.
\<close>

definition breakCheckStep :: "config \<Rightarrow> peak list \<Rightarrow> nat \<Rightarrow> PairState list \<Rightarrow> PairState list" where
  "breakCheckStep M pks i ps =
     (let partnerIdx = partner (ps ! i) in
      if partnerIdx = - 1 then ps
      else
        (case (arrayGet ps partnerIdx, arrayGet pks (int i), arrayGet pks partnerIdx) of
           (Some partnerState, Some A, Some B) \<Rightarrow>
             if distanceTo (currentPyramidCenter A) (currentPyramidCenter B) > pairKeepRadius M
             then
               (let grace = breakGraceFrames M;
                    j = nat partnerIdx;
                    ps1 = modify i (\<lambda>s. s\<lparr>breakGrace := grace, breakPartner := partnerIdx\<rparr>) ps;
                    ps2 = modify j (\<lambda>s. s\<lparr>breakGrace := grace, breakPartner := int i\<rparr>) ps1;
                    ps3 = modify i (\<lambda>s. s\<lparr>partner := - 1, frames := 0, cooldown := pairCooldown M\<rparr>) ps2
                in modify j (\<lambda>s. s\<lparr>partner := - 1, frames := 0, cooldown := pairCooldown M\<rparr>) ps3)
             else ps
         | _ \<Rightarrow> ps))"

definition breakCheck :: "config \<Rightarrow> peak list \<Rightarrow> PairState list \<Rightarrow> PairState list" where
  "breakCheck M pks ps = fold (breakCheckStep M pks) [0..<length ps] ps"

text \<open>The category of a solid: \<open>actual_category ?? assigned_category\<close>.\<close>

definition categoryOf :: "solid list \<Rightarrow> nat \<Rightarrow> string option" where
  "categoryOf solids i =
     (case arrayGet solids (int i) of
        None \<Rightarrow> None
      | Some s \<Rightarrow> (case actual_category s of Some c \<Rightarrow> Some c | None \<Rightarrow> assigned_category s))"

definition truthy :: "string option \<Rightarrow> bool" where
  "truthy c = (case c of None \<Rightarrow> False | Some s \<Rightarrow> s \<noteq> [])"

definition complementary_map :: "string \<Rightarrow> string option" where
  "complementary_map c =
     (if c = ''low'' then Some ''mid''
      else if c = ''high'' then Some ''mid''
      else if c = ''mid'' then Some ''rhythmic''
      else if c = ''rhythmic'' then Some ''mid''
      else None)"

text \<open>\<open>catB && (complementary_map[catA] === catB || complementary_map[catB] === catA)\<close>\<close>

definition complementaryPair :: "string \<Rightarrow> string option \<Rightarrow> bool" where
  "complementaryPair catA catB =
     (case catB of
        None \<Rightarrow> False
      | Some b \<Rightarrow> b \<noteq> [] \<and> (complementary_map catA = Some b \<or> complementary_map b = Some catA))"

text \<open>
  One iteration of the candidate loop of the formation pass for agent \<open>i\<close>; the pair
  (\<open>bestPartner\<close>, \<open>bestDist\<close>) is the loop's state.
\<close>

definition candidateStep ::
  "engine \<Rightarrow> nat \<Rightarrow> peak \<Rightarrow> string \<Rightarrow> nat \<Rightarrow> int \<times> real \<Rightarrow> (int \<times> real) option" where
  "candidateStep st i peakA catA j best =
     (if i = j then Some best
      else case arrayGet (pairStates st) (int j) of
        None \<Rightarrow> None
      | Some stB \<Rightarrow>
          if partner stB \<noteq> - 1 \<or> cooldown stB > 0 then Some best
          else case arrayGet (peaks st) (int j) of
            None \<Rightarrow> Some best
          | Some peakB \<Rightarrow>
              if \<not> complementaryPair catA (categoryOf (peakSolids st) j) then Some best
              else
                (let dist = distanceTo (currentPyramidCenter peakA)
                                        (currentPyramidCenter peakB)
                 in if dist \<le> snd best then Some (int j, dist) else Some best))"

definition randomDirection :: "(nat \<Rightarrow> real) \<Rightarrow> nat \<Rightarrow> Vector3" where
  "randomDirection rnd k = normalize (Vec (rnd k - 0.5) 0 (rnd (Suc k) - 0.5))"

definition linkPair :: "(nat \<Rightarrow> real) \<Rightarrow> nat \<Rightarrow> nat \<Rightarrow> engine \<Rightarrow> engine" where
  "linkPair rnd i bestPartner st =
     (let ps1 = modify i (\<lambda>s. s\<lparr>partner := int bestPartner, frames := 0\<rparr>) (pairStates st);
          ps2 = modify bestPartner (\<lambda>s. s\<lparr>partner := int i, frames := 0\<rparr>) ps1;
          pairIndex = min i bestPartner
      in case arrayGet (pairDirections st) (int pairIndex) of
           Some (Some d) \<Rightarrow> st\<lparr>pairStates := ps2\<rparr>
         | _ \<Rightarrow> st\<lparr>pairStates := ps2,
                   pairDirections :=
                     arraySet (pairDirections st) pairIndex (randomDirection rnd (rng st)),
                   rng := rng st + 2\<rparr>)"

definition formationStep :: "(nat \<Rightarrow> real) \<Rightarrow> nat \<Rightarrow> engine \<Rightarrow> engine option" where
  "formationStep rnd i st =
     (case arrayGet (pairStates st) (int i) of
        None \<Rightarrow> None
      | Some state \<Rightarrow>
          if partner state \<noteq> - 1 \<or> cooldown state > 0 then Some st
          else case arrayGet (peaks st) (int i) of
            None \<Rightarrow> Some st
          | Some peakA \<Rightarrow>
             (case categoryOf (peakSolids st) i of
                None \<Rightarrow> Some st
              | Some catA \<Rightarrow>
                  if catA = [] then Some st
                  else
                    (case forEach (candidateStep st i peakA catA)
                            (SpatialGrid_getNearby (spatialGrid st) (currentPyramidCenter peakA)
                               (pairFormRadius (motionSystem st)))
                            (- 1, pairFormRadius (motionSystem st)) of
                       None \<Rightarrow> None
                     | Some (bestPartner, bestDist) \<Rightarrow>
                         if bestPartner \<noteq> - 1 then Some (linkPair rnd i (nat bestPartner) st)
                         else Some st)))"

definition findPairs :: "(nat \<Rightarrow> real) \<Rightarrow> engine \<Rightarrow> engine option" where
  "findPairs rnd st =
     (let st1 = st\<lparr>pairStates := map decayPairState (pairStates st)\<rparr>;
          st2 = rebuildGrid st1;
          st3 = st2\<lparr>pairStates := breakCheck (motionSystem st2) (peaks st2) (pairStates st2)\<rparr>
      in forEach (formationStep rnd) [0..<length (peaks st3)] st3)"

subsection \<open>The pairing force: \<open>_applyPairingForces\<close> and \<open>_breakPair\<close>\<close>

text \<open>
  \<open>while (this._pairDirections.length < this.peaks.length) push(random direction)\<close>:
  one iteration for every missing index, two random draws each.
\<close>

definition pushDirection :: "(nat \<Rightarrow> real) \<Rightarrow> engine \<Rightarrow> engine" where
  "pushDirection rnd s =
     s\<lparr>pairDirections := pairDirections s @ [Some (randomDirection rnd (rng s))],
       rng := rng s + 2\<rparr>"

definition growPairDirections :: "(nat \<Rightarrow> real) \<Rightarrow> engine \<Rightarrow> engine" where
  "growPairDirections rnd st =
     fold (\<lambda>_. pushDirection rnd) [length (pairDirections st)..<length (peaks st)] st"

text \<open>
  \<open>_breakPair(indexA, indexB, currentHeading, currentEase)\<close>: member A is always
  written, member B only if \<open>_pairStates[indexB]\<close> exists.
\<close>

definition breakPair ::
  "config \<Rightarrow> nat \<Rightarrow> int \<Rightarrow> Vector3 \<Rightarrow> real \<Rightarrow> PairState list \<Rightarrow> PairState list" where
  "breakPair M indexA indexB currentHeading currentEase ps =
     (let grace = breakGraceFrames M;
          ps1 = modify indexA
                  (\<lambda>s. s\<lparr>partner := - 1, frames := 0, cooldown := pairCooldown M,
                         breakGrace := grace, breakPartner := indexB, breakFade := grace,
                         breakHeading := currentHeading, breakEase := currentEase,
                         breakThisFrame := True\<rparr>) ps
      in case arrayGet ps1 indexB of
           None \<Rightarrow> ps1
         | Some stateB \<Rightarrow>
             modify (nat indexB)
               (\<lambda>s. s\<lparr>partner := - 1, frames := 0, cooldown := pairCooldown M,
                      breakGrace := grace, breakPartner := int indexA, breakFade := grace,
                      breakHeading := currentHeading, breakEase := currentEase,
                      breakThisFrame := True\<rparr>) ps1)"

text \<open>Separation and cohesion along the unit vector \<open>u\<close> to the partner.\<close>

definition pairSeparation :: "config \<Rightarrow> Vector3 \<Rightarrow> real \<Rightarrow> Vector3 \<Rightarrow> Vector3" where
  "pairSeparation M u distance forceOffset =
     (if distance < pairDesiredSeparation M
      then addScaledVector forceOffset u
             (- ((1 - distance / pairDesiredSeparation M) * pairSeparationStrength M * pairingWeight M))
      else if distance > pairDesiredSeparation M * 1.5
      then addScaledVector forceOffset u
             (((distance - pairDesiredSeparation M) / pairDesiredSeparation M)
                * pairSeparationStrength M * 0.5 * pairingWeight M)
      else forceOffset)"

definition pairCohesion :: "config \<Rightarrow> Vector3 \<Rightarrow> Vector3 \<Rightarrow> Vector3 \<Rightarrow> Vector3" where
  "pairCohesion M a b forceOffset =
     (let midpoint = multiplyScalar (addVectors a b) 0.5;
          toMidpoint = subVectors midpoint a
      in addScaledVector forceOffset (normalize toMidpoint)
           (pairCohesionStrength M * pairingWeight M))"

text \<open>
  The desired heading of a pair, before the jitter: the tangent of the circle around the
  origin through the pair's midpoint, blended with the pair's recent velocity.
  \<open>lastA\<close> and \<open>lastB\<close> are \<open>_lastPositions[...] || currentPyramidCenter\<close>.
\<close>

definition pairTangent :: "config \<Rightarrow> Vector3 \<Rightarrow> Vector3 \<Rightarrow> Vector3 \<Rightarrow> Vector3 \<Rightarrow> Vector3" where
  "pairTangent M a b lastA lastB =
     (let center = multiplyScalar (addVectors a b) 0.5;
          radial = setY center 0;
          tangent = (if lengthSq radial > 0.000001
                     then normalize (crossVectors radial (Vec 0 1 0)) else Vec 1 0 0);
          myVel = subVectors a lastA;
          partnerVel = subVectors b lastB;
          avgVel = addVectors myVel partnerVel
      in if lengthSq avgVel > 0.000001
         then normalize
                (addScaledVector
                   (multiplyScalar tangent
                      (if headingTangentWeight M = 0 then 0.85 else headingTangentWeight M))
                   (normalize avgVel)
                   (if headingVelocityWeight M = 0 then 0.15 else headingVelocityWeight M))
         else tangent)"

definition jitterTangent :: "config \<Rightarrow> real \<Rightarrow> Vector3 \<Rightarrow> Vector3" where
  "jitterTangent M r tangent =
     (let jitterRad = (pairHeadingJitter M * pi / 180) * (r - 0.5)
      in normalize (Vec (vx tangent * cos jitterRad - vz tangent * sin jitterRad) 0
                        (vx tangent * sin jitterRad + vz tangent * cos jitterRad)))"

definition easeOf :: "config \<Rightarrow> int \<Rightarrow> real" where
  "easeOf M n =
     (let easeProgress = min 1 (real_of_int n / max 1 (real_of_int (pairEaseFrames M)))
      in easeProgress * easeProgress * (3 - 2 * easeProgress))"

definition wander :: "(nat \<Rightarrow> real) \<Rightarrow> nat \<Rightarrow> real \<Rightarrow> Vector3 \<Rightarrow> Vector3" where
  "wander rnd k amount forceOffset =
     forceOffset\<lparr>vx := vx forceOffset + (rnd k - 0.5) * amount,
                  vz := vz forceOffset + (rnd (Suc k) - 0.5) * amount\<rparr>"

text \<open>
  The heading as the lower-indexed member of a pair leaves it: the desired heading,
  jittered every \<open>pairJitterInterval\<close> frames with the random draw \<open>r\<close>, and
  \<open>heading.lerp(tangent, pairHeadingSmoothing).normalize()\<close>.
\<close>

definition updatedHeading ::
  "config \<Rightarrow> real \<Rightarrow> bool \<Rightarrow> Vector3 \<Rightarrow> Vector3 \<Rightarrow> Vector3 \<Rightarrow> Vector3 \<Rightarrow> Vector3 \<Rightarrow> Vector3" where
  "updatedHeading M r jitter a b lastA lastB heading0 =
     (let tangent0 = pairTangent M a b lastA lastB;
          tangent = (if jitter then jitterTangent M r tangent0 else tangent0)
      in normalize (lerp heading0 tangent (pairHeadingSmoothing M)))"

text \<open>
  The force offset of a paired agent at \<open>a\<close> with its partner at \<open>b\<close>: separation,
  cohesion, alignment and travel along the heading, and the small wander, whose two
  random draws are at the positions \<open>k\<close> and \<open>k + 1\<close>.
\<close>

definition pairedOffset ::
  "config \<Rightarrow> (nat \<Rightarrow> real) \<Rightarrow> nat \<Rightarrow> Vector3 \<Rightarrow> Vector3 \<Rightarrow> Vector3 \<Rightarrow> real \<Rightarrow> Vector3 \<Rightarrow> Vector3" where
  "pairedOffset M rnd k a b heading ease forceOffset =
     (let toPartner = subVectors b a;
          dist = vlength toPartner;
          u = normalize toPartner;
          f1 = pairSeparation M u dist forceOffset;
          f2 = pairCohesion M a b f1;
          alignForce = ease * pairAlignmentStrength M * pairingWeight M;
          travelForce = ease * pairTravelSpeed M * pairingWeight M;
          f3 = addScaledVector f2 heading alignForce;
          f4 = addScaledVector f3 heading travelForce
      in wander rnd k (wanderInPair M * 0.5) f4)"

text \<open>
  The branch \<open>state.partner !== -1\<close>, entered with \<open>frames\<close> already incremented, for a
  partner peak \<open>pk\<close> at a distance of at least \<open>1e-6\<close>. The lower-indexed member updates
  the shared heading in place. A missing heading (\<open>undefined\<close>) throws. The random
  draws, in order: the jitter (if it is due), the two of the wander, and the break draw
  (only if \<open>frames > pairMinFrames\<close>).
\<close>

definition pairedForces ::
  "(nat \<Rightarrow> real) \<Rightarrow> nat \<Rightarrow> peak \<Rightarrow> peak \<Rightarrow> engine \<Rightarrow> Vector3 \<Rightarrow> (engine \<times> Vector3) option" where
  "pairedForces rnd index peak pk st forceOffset =
     (let M = motionSystem st;
          state = pairStates st ! index;
          a = currentPyramidCenter peak;
          b = currentPyramidCenter pk;
          pairIndex = min (int index) (partner state)
      in case arrayGet (pairDirections st) pairIndex of
           Some (Some heading0) \<Rightarrow>
             (let lower = (int index = pairIndex);
                  jitter = (lower \<and> pairJitterInterval M \<noteq> 0 \<and>
                            frames state mod pairJitterInterval M = 0);
                  lastA = (case arrayGet (lastPositions st) (int index) of
                             Some l \<Rightarrow> l | None \<Rightarrow> a);
                  lastB = (case arrayGet (lastPositions st) (partner state) of
                             Some l \<Rightarrow> l | None \<Rightarrow> b);
                  heading = (if lower
                             then updatedHeading M (rnd (rng st)) jitter a b lastA lastB heading0
                             else heading0);
                  k = (if jitter then rng st + 1 else rng st);
                  dirs = (if lower then (pairDirections st)[nat pairIndex := Some heading]
                          else pairDirections st);
                  ease = easeOf M (frames state);
                  f5 = pairedOffset M rnd k a b heading ease forceOffset
              in if frames state > pairMinFrames M
                 then (if rnd (k + 2) < pairBreakProb M
                       then Some (st\<lparr>pairDirections := dirs, rng := k + 3,
                                     pairStates := breakPair M index (partner state) heading ease
                                                     (pairStates st)\<rparr>, f5)
                       else Some (st\<lparr>pairDirections := dirs, rng := k + 3\<rparr>, f5))
                 else Some (st\<lparr>pairDirections := dirs, rng := k + 2\<rparr>, f5))
         | _ \<Rightarrow> None)"

text \<open>The branch \<open>state.partner === -1\<close>: the fading echo of the pair forces, and wander.\<close>

definition soloForces :: "(nat \<Rightarrow> real) \<Rightarrow> nat \<Rightarrow> engine \<Rightarrow> Vector3 \<Rightarrow> engine \<times> Vector3" where
  "soloForces rnd index st forceOffset =
     (let M = motionSystem st;
          state = pairStates st ! index;
          fading = (breakFade state > 0 \<and> lengthSq (breakHeading state) > 0.000001);
          fadeProgress = real_of_int (breakFade state) / max 1 (real_of_int (breakGraceFrames M));
          storedEase = (if breakEase state = 0 then 1.0 else breakEase state);
          alignForce = fadeProgress * storedEase * pairAlignmentStrength M * pairingWeight M;
          travelForce = fadeProgress * storedEase * pairTravelSpeed M * pairingWeight M;
          f1 = (if fading then addScaledVector forceOffset (breakHeading state)
                                 (alignForce + travelForce)
                else forceOffset);
          state1 = (if fading then state\<lparr>breakFade := breakFade state - 1\<rparr> else state);
          explorationScale =
            (if breakFade state1 > 0
             then 1 - real_of_int (breakFade state1) / max 1 (real_of_int (breakGraceFrames M))
             else 1.0)
      in (st\<lparr>pairStates := (pairStates st)[index := state1], rng := rng st + 2\<rparr>,
          wander rnd (rng st) (wanderStrength M * explorationScale) f1))"

definition applyPairingForces ::
  "(nat \<Rightarrow> real) \<Rightarrow> nat \<Rightarrow> engine \<Rightarrow> Vector3 \<Rightarrow> (engine \<times> Vector3) option" where
  "applyPairingForces rnd index st0 forceOffset =
     (let st = growPairDirections rnd st0 in
      case arrayGet (pairStates st) (int index) of
        None \<Rightarrow> None
      | Some state \<Rightarrow>
          if partner state \<noteq> - 1
          then
            (let st1 = st\<lparr>pairStates := modify index (\<lambda>s. s\<lparr>frames := frames s + 1\<rparr>) (pairStates st)\<rparr>
             in case arrayGet (peaks st1) (partner state) of
                  None \<Rightarrow> Some (st1, forceOffset)
                | Some pk \<Rightarrow>
                    (case arrayGet (peaks st1) (int index) of
                       None \<Rightarrow> None
                     | Some peak \<Rightarrow>
                         if vlength (subVectors (currentPyramidCenter pk) (currentPyramidCenter peak))
                              < 0.000001
                         then Some (st1, forceOffset)
                         else pairedForces rnd index peak pk st1 forceOffset))
          else Some (soloForces rnd index st forceOffset))"

subsection \<open>Repulsion and complementary attraction: \<open>_applyRepulsionForces\<close>\<close>

text \<open>
  One iteration of the loop over the nearby indices. \<open>delta.normalize()\<close> normalises
  \<open>delta\<close> in place, so the attraction branch normalises what the repulsion branch left.
\<close>

definition repulsionStep :: "engine \<Rightarrow> nat \<Rightarrow> peak \<Rightarrow> nat \<Rightarrow> Vector3 \<Rightarrow> Vector3" where
  "repulsionStep st index peak j forceOffset =
     (let M = motionSystem st;
          myState = arrayGet (pairStates st) (int index);
          myPartner = map_option partner myState
      in if index = j then forceOffset
         else case arrayGet (peaks st) (int j) of
           None \<Rightarrow> forceOffset
         | Some other \<Rightarrow>
            (let delta = subVectors (currentPyramidCenter peak) (currentPyramidCenter other);
                 dist = vlength delta
             in if dist < 0.0001 then forceOffset
                else
                 (let graceScale =
                        (case myState of
                           None \<Rightarrow> 1.0
                         | Some s \<Rightarrow>
                             if breakGrace s > 0 \<and> int j = breakPartner s
                             then 1 - real_of_int (breakGrace s) / max 1 (real_of_int (breakGraceFrames M))
                             else 1.0);
                      repulsionScale = (if myPartner = Some (int j) then 0.4 else 1.0);
                      push = (1 - dist / minSeparation M) * repulsionStrength M * repulsionWeight M
                               * graceScale * repulsionScale;
                      f1 = (if dist < minSeparation M
                            then addScaledVector forceOffset (normalize delta) (push * minSeparation M)
                            else forceOffset);
                      delta1 = (if dist < minSeparation M then normalize delta else delta)
                  in case (arrayGet (peakSolids st) (int index), arrayGet (peakSolids st) (int j)) of
                       (Some solidA, Some solidB) \<Rightarrow>
                         (case (actual_category solidA, actual_category solidB) of
                            (Some catA, Some catB) \<Rightarrow>
                              if catA \<noteq> [] \<and> catB \<noteq> [] \<and>
                                 (complementary_map catA = Some catB \<or> complementary_map catB = Some catA)
                              then
                                (if myPartner \<noteq> Some (- 1) \<and> myPartner \<noteq> Some (int j) then f1
                                 else
                                  (let inner = minSeparation M * 1.2 in
                                   if dist < complementaryRange M \<and> dist > inner
                                   then
                                     (let t0 = (dist - inner) / max 0.000001 (complementaryRange M - inner);
                                          t = min (max t0 0) 1;
                                          smooth = (1 - t) * (1 - t);
                                          pull = complementaryPull M * attractionWeight M * smooth * graceScale
                                      in addScaledVector f1 (normalize delta1) (- pull * minSeparation M))
                                   else f1))
                              else f1
                          | _ \<Rightarrow> f1)
                     | _ \<Rightarrow> f1)))"

definition applyRepulsionForces :: "nat \<Rightarrow> engine \<Rightarrow> Vector3 \<Rightarrow> Vector3 option" where
  "applyRepulsionForces index st forceOffset =
     (case arrayGet (peaks st) (int index) of
        None \<Rightarrow> None
      | Some peak \<Rightarrow>
          (let M = motionSystem st;
               searchRadius = max (minSeparation M) (complementaryRange M);
               nearbyIndices = SpatialGrid_getNearby (spatialGrid st) (currentPyramidCenter peak)
                                 searchRadius
           in Some (fold (repulsionStep st index peak) nearbyIndices forceOffset)))"

subsection \<open>Exploration: \<open>_applyExplorationForces\<close>\<close>

text \<open>
  The center avoidance at the end of \<open>_applyExplorationForces\<close>. \<open>radial\<close> is the
  horizontal position as the boundary branch left it, \<open>radialLen\<close> its length as
  measured before. The result is the new force offset and the position in the random
  stream.
\<close>

definition centerAvoidance ::
  "config \<Rightarrow> (nat \<Rightarrow> real) \<Rightarrow> nat \<Rightarrow> Vector3 \<Rightarrow> real \<Rightarrow> Vector3 \<Rightarrow> Vector3 \<times> nat" where
  "centerAvoidance M rnd k radial radialLen forceOffset =
     (if radialLen < avoidCenterRadius M
      then
        (let proximity = 1 - (radialLen / avoidCenterRadius M);
             pushOutward = proximity * proximity * avoidCenterStrength M
         in if radialLen > 0.0001
            then (addScaledVector forceOffset (normalize radial) pushOutward, k)
            else (addScaledVector forceOffset (randomDirection rnd k) (avoidCenterStrength M), k + 2))
      else (forceOffset, k))"

text \<open>The circular drift around the origin and the low-frequency noise.\<close>

definition explorationDrift :: "config \<Rightarrow> real \<Rightarrow> real \<Rightarrow> real \<Rightarrow> Vector3 \<Rightarrow> Vector3" where
  "explorationDrift M seed scale t forceOffset =
     (let orbitAngle = t * 0.07 + seed * 0.013;
          orbitRadius = 40;
          circularDrift = Vec (cos orbitAngle * orbitRadius) 0 (sin orbitAngle * orbitRadius);
          circularForce = circularBias M * explorationWeight M * scale;
          f1 = addScaledVector forceOffset (normalize circularDrift) circularForce;
          noisePhase = t * 0.12 + seed * 0.3;
          noiseX = sin (noisePhase * 1.31 + seed * 0.2);
          noiseZ = cos (noisePhase * 1.17 + seed * 0.35)
      in f1\<lparr>vx := vx f1 + noiseX * wanderStrength M * scale,
             vz := vz f1 + noiseZ * wanderStrength M * scale\<rparr>)"

text \<open>The soft outer boundary: a push inward beyond \<open>maxRange\<close>.\<close>

definition boundaryPush :: "config \<Rightarrow> Vector3 \<Rightarrow> real \<Rightarrow> Vector3 \<Rightarrow> Vector3" where
  "boundaryPush M radial radialLen forceOffset =
     (if radialLen > maxRange M
      then addScaledVector forceOffset (normalize radial) (- ((radialLen - maxRange M) * 0.05))
      else forceOffset)"

text \<open>
  \<open>radial.normalize()\<close> in the boundary branch normalises \<open>radial\<close> in place; the center
  avoidance sees what that branch left.
\<close>

definition applyExplorationForces ::
  "(nat \<Rightarrow> real) \<Rightarrow> nat \<Rightarrow> engine \<Rightarrow> Vector3 \<Rightarrow> real \<Rightarrow> (engine \<times> Vector3) option" where
  "applyExplorationForces rnd index st forceOffset t =
     (case arrayGet (peaks st) (int index) of
        None \<Rightarrow> None
      | Some peak \<Rightarrow>
          (let M = motionSystem st;
               isPaired = (case arrayGet (pairStates st) (int index) of
                             None \<Rightarrow> False | Some state \<Rightarrow> partner state \<noteq> - 1);
               scale = (if isPaired then explorationPairedScale M else 1.0);
               f2 = explorationDrift M (exploreSeed peak) scale t forceOffset;
               radial = setY (currentPyramidCenter peak) 0;
               radialLen = vlength radial;
               f3 = boundaryPush M radial radialLen f2;
               radial1 = (if radialLen > maxRange M then normalize radial else radial);
               (f4, k) = centerAvoidance M rnd (rng st) radial1 radialLen f3
           in Some (st\<lparr>rng := k\<rparr>, f4)))"

subsection \<open>One tick: \<open>update\<close>\<close>

definition generateSwarmPeakPositions :: "nat \<Rightarrow> real \<Rightarrow> Vector3 list" where
  "generateSwarmPeakPositions numPeaks t0 =
     map (\<lambda>i. let t = t0 + real i * 10;
                  angle = sin (t * 0.13 + real i) * pi + cos (t * 0.17 + real i * 0.5) * pi * 0.5;
                  radius = 50 + sin (t * 0.07 + real i) * 75 * 0.5 + cos (t * 0.11 + real i) * 75 * 0.3
              in Vec (cos angle * radius) 0 (sin angle * radius))
         [0..<numPeaks]"

definition swarmTargets :: "engine \<Rightarrow> Vector3 list" where
  "swarmTargets st =
     (case frozenSwarmPositions st of
        Some frozen \<Rightarrow>
          if targetLocked st \<and> length frozen = length (peaks st) then frozen
          else generateSwarmPeakPositions (length (peaks st)) (time st)
      | None \<Rightarrow> generateSwarmPeakPositions (length (peaks st)) (time st))"

text \<open>
  The three force passes of one agent, in the order of \<open>update\<close>: the flag
  \<open>breakThisFrame\<close> is cleared, the pairing pass runs, the repulsion pass runs only if the
  flag is still clear, and the exploration pass always runs.
\<close>

definition clearBreakFlag :: "nat \<Rightarrow> engine \<Rightarrow> engine" where
  "clearBreakFlag i st =
     st\<lparr>pairStates := modify i (\<lambda>s. s\<lparr>breakThisFrame := False\<rparr>) (pairStates st)\<rparr>"

definition accumulateForces :: "(nat \<Rightarrow> real) \<Rightarrow> nat \<Rightarrow> engine \<Rightarrow> (engine \<times> Vector3) option" where
  "accumulateForces rnd i st =
     (case arrayGet (pairStates st) (int i) of
        None \<Rightarrow> None
      | Some s0 \<Rightarrow>
          (case applyPairingForces rnd i (clearBreakFlag i st) zeroVec of
             None \<Rightarrow> None
           | Some (st1, f1) \<Rightarrow>
               (case (if \<not> breakThisFrame (pairStates st1 ! i)
                      then applyRepulsionForces i st1 f1 else Some f1) of
                  None \<Rightarrow> None
                | Some f2 \<Rightarrow> applyExplorationForces rnd i st1 f2 (time st1))))"

text \<open>Damping, clamping, and the velocity update of one agent.\<close>

definition limitVelocity :: "config \<Rightarrow> Vector3 \<Rightarrow> Vector3" where
  "limitVelocity M velocity =
     (if vlength velocity > maxVelocity M then setLength velocity (maxVelocity M) else velocity)"

definition integrate :: "nat \<Rightarrow> peak \<Rightarrow> Vector3 \<Rightarrow> Vector3 \<Rightarrow> engine \<Rightarrow> engine" where
  "integrate i peak baseTarget forceOffset0 st =
     (let M = motionSystem st;
          dampingFactor = 0.85;
          f1 = multiplyScalar forceOffset0 dampingFactor;
          forceOffset = (if vlength f1 > maxOffset M then setLength f1 (maxOffset M) else f1);
          vs = (if i < length (velocities st) then velocities st
                else velocities st @ replicate (Suc i - length (velocities st)) zeroVec);
          velocity = vs ! i;
          paired = (case arrayGet (pairStates st) (int i) of
                      None \<Rightarrow> False | Some state \<Rightarrow> partner state \<noteq> - 1);
          swirlWeight = (if paired then swarmWeight M * 0.55 else swarmWeight M);
          swirlTarget = lerp (currentPyramidCenter peak) baseTarget swirlWeight;
          adjustedTarget = addVectors swirlTarget forceOffset;
          desiredMove = subVectors adjustedTarget (currentPyramidCenter peak);
          desiredVel = multiplyScalar desiredMove (followLerp M);
          velocity1 = limitVelocity M (lerp velocity desiredVel 0.3)
      in st\<lparr>velocities := vs[i := velocity1],
            peaks := (peaks st)[i := peak\<lparr>currentPyramidCenter :=
                                      addVectors (currentPyramidCenter peak) velocity1\<rparr>]\<rparr>)"

text \<open>The legacy smooth alignment: interpolate towards the target, latch when close.\<close>

definition softLock :: "nat \<Rightarrow> peak \<Rightarrow> Vector3 \<Rightarrow> engine \<Rightarrow> engine" where
  "softLock i peak target st =
     (let c = lerp (currentPyramidCenter peak) target
                (case evolvingMoveSpeed peak of Some v \<Rightarrow> v | None \<Rightarrow> 0.1);
          peak1 = (if distanceTo c target < 0.02
                   then peak\<lparr>currentPyramidCenter := target, evolvingLock := True\<rparr>
                   else peak\<lparr>currentPyramidCenter := c\<rparr>)
      in st\<lparr>peaks := (peaks st)[i := peak1]\<rparr>)"

text \<open>
  The agents that the loop of \<open>update\<close> skips: hidden by the category filter, stopped by
  the save mode, or locked by the evolving alignment.
\<close>

definition skipped :: "engine \<Rightarrow> peak \<Rightarrow> bool" where
  "skipped st peak =
     ((categoryFilterActive st \<and> \<not> categoryVisible peak) \<or> stopAllMovement st \<or>
      (evolvingActive st \<and> evolvingLock peak))"

definition movePeak :: "(nat \<Rightarrow> real) \<Rightarrow> Vector3 list \<Rightarrow> nat \<Rightarrow> engine \<Rightarrow> engine option" where
  "movePeak rnd swarmPositions i st =
     (case arrayGet (peaks st) (int i) of
        None \<Rightarrow> Some st
      | Some peak \<Rightarrow>
          if categoryFilterActive st \<and> \<not> categoryVisible peak then Some st
          else if stopAllMovement st then Some st
          else if evolvingActive st \<and> evolvingLock peak then Some st
          else
            (case (if evolvingLock peak then None else evolvingTargetCenter peak) of
               Some target \<Rightarrow> Some (softLock i peak target st)
             | None \<Rightarrow>
                 (case accumulateForces rnd i st of
                    None \<Rightarrow> None
                  | Some (st1, forceOffset) \<Rightarrow>
                      (case arrayGet swarmPositions (int i) of
                         None \<Rightarrow> None
                       | Some baseTarget \<Rightarrow> Some (integrate i peak baseTarget forceOffset st1)))))"

definition recordLastPositions :: "engine \<Rightarrow> engine" where
  "recordLastPositions st =
     st\<lparr>lastPositions :=
          fold (\<lambda>i lp. (if i < length lp then lp else lp @ [zeroVec])
                         [i := currentPyramidCenter (peaks st ! i)])
               [0..<length (peaks st)] (lastPositions st)\<rparr>"

text \<open>
  \<open>update\<close>, up to the grain updates (which are rendering). Most calls return early:
  the simulation advances when \<open>frameCounter\<close> is a multiple of
  \<open>floor(updateInterval / 16)\<close>.
\<close>

definition tick :: "(nat \<Rightarrow> real) \<Rightarrow> engine \<Rightarrow> engine option" where
  "tick rnd st =
     (let st1 = resizeAuxiliary st;
          swarmPositions = swarmTargets st1
      in case findPairs rnd st1 of
           None \<Rightarrow> None
         | Some st2 \<Rightarrow>
             (case forEach (movePeak rnd swarmPositions) [0..<length (peaks st2)] st2 of
                None \<Rightarrow> None
              | Some st3 \<Rightarrow> Some (recordLastPositions st3)))"

definition update :: "(nat \<Rightarrow> real) \<Rightarrow> engine \<Rightarrow> engine option" where
  "update rnd st =
     (if peaks st = [] then Some st
      else
        (let st1 = st\<lparr>time := time st + 0.016, frameCounter := frameCounter st + 1\<rparr>
         in if frameCounter st1 mod \<lfloor>updateInterval st1 / 16\<rfloor> \<noteq> 0 then Some st1
            else tick rnd st1))"

subsection \<open>Predicates used in the statements\<close>

definition pairSymmetric :: "PairState list \<Rightarrow> bool" where
  "pairSymmetric ps =
     (\<forall>i < length ps. partner (ps ! i) \<noteq> - 1 \<longrightarrow>
        0 \<le> partner (ps ! i) \<and> nat (partner (ps ! i)) < length ps \<and>
        partner (ps ! nat (partner (ps ! i))) = int i)"

text \<open>What one iteration does to every entry, when it breaks.\<close>

definition breaks :: "config \<Rightarrow> peak list \<Rightarrow> nat \<Rightarrow> PairState list \<Rightarrow> bool" where
  "breaks M pks k ps =
     (partner (ps ! k) \<noteq> - 1 \<and> 0 \<le> partner (ps ! k) \<and> nat (partner (ps ! k)) < length ps \<and>
      k < length pks \<and> nat (partner (ps ! k)) < length pks \<and>
      distanceTo (currentPyramidCenter (pks ! k))
                 (currentPyramidCenter (pks ! nat (partner (ps ! k)))) > pairKeepRadius M)"

text \<open>The state of a couple that the distance check has just broken.\<close>

definition brokenCouple :: "config \<Rightarrow> nat \<Rightarrow> nat \<Rightarrow> PairState list \<Rightarrow> bool" where
  "brokenCouple M i j ps =
     (partner (ps ! i) = - 1 \<and> partner (ps ! j) = - 1 \<and>
      frames (ps ! i) = 0 \<and> frames (ps ! j) = 0 \<and>
      cooldown (ps ! i) = pairCooldown M \<and> cooldown (ps ! j) = pairCooldown M \<and>
      breakGrace (ps ! i) = breakGraceFrames M \<and> breakGrace (ps ! j) = breakGraceFrames M \<and>
      breakPartner (ps ! i) = int j \<and> breakPartner (ps ! j) = int i)"

definition eligible :: "engine \<Rightarrow> nat \<Rightarrow> string \<Rightarrow> nat \<Rightarrow> bool" where
  "eligible st i catA j =
     (j \<noteq> i \<and> j < length (pairStates st) \<and> j < length (peaks st) \<and>
      partner (pairStates st ! j) = - 1 \<and> \<not> cooldown (pairStates st ! j) > 0 \<and>
      complementaryPair catA (categoryOf (peakSolids st) j))"

definition distanceFrom :: "engine \<Rightarrow> peak \<Rightarrow> nat \<Rightarrow> real" where
  "distanceFrom st peakA j =
     distanceTo (currentPyramidCenter peakA) (currentPyramidCenter (peaks st ! j))"

definition bestAmong ::
  "engine \<Rightarrow> nat \<Rightarrow> peak \<Rightarrow> string \<Rightarrow> nat list \<Rightarrow> int \<Rightarrow> real \<Rightarrow> int \<Rightarrow> real \<Rightarrow> bool" where
  "bestAmong st i peakA catA js b0 d0 b d =
     ((\<forall>j \<in> set js. eligible st i catA j \<longrightarrow> d \<le> distanceFrom st peakA j) \<and>
      ((b = b0 \<and> d = d0 \<and>
         (\<forall>j \<in> set js. eligible st i catA j \<longrightarrow> d0 < distanceFrom st peakA j)) \<or>
       (\<exists>xs j ys. js = xs @ j # ys \<and> b = int j \<and> eligible st i catA j \<and>
          distanceFrom st peakA j = d \<and> d \<le> d0 \<and>
          (\<forall>k \<in> set ys. eligible st i catA k \<longrightarrow> d < distanceFrom st peakA k))))"

definition sameWorld :: "engine \<Rightarrow> engine \<Rightarrow> bool" where
  "sameWorld a b =
     (peaks b = peaks a \<and> velocities b = velocities a \<and> lastPositions b = lastPositions a \<and>
      motionSystem b = motionSystem a \<and> time b = time a \<and> peakSolids b = peakSolids a \<and>
      categoryFilterActive b = categoryFilterActive a \<and> stopAllMovement b = stopAllMovement a \<and>
      evolvingActive b = evolvingActive a \<and> targetLocked b = targetLocked a \<and>
      frozenSwarmPositions b = frozenSwarmPositions a \<and> updateInterval b = updateInterval a \<and>
      frameCounter b = frameCounter a)"

definition integrated :: "engine \<Rightarrow> peak \<Rightarrow> bool" where
  "integrated st peak =
     (\<not> skipped st peak \<and> (evolvingLock peak \<or> evolvingTargetCenter peak = None))"

text \<open>What the step of agent \<open>j\<close> leaves alone.\<close>

definition stepFrame :: "nat \<Rightarrow> engine \<Rightarrow> engine \<Rightarrow> bool" where
  "stepFrame j a b =
     (motionSystem b = motionSystem a \<and> categoryFilterActive b = categoryFilterActive a \<and>
      stopAllMovement b = stopAllMovement a \<and> evolvingActive b = evolvingActive a \<and>
      length (peaks b) = length (peaks a) \<and> length (velocities a) \<le> length (velocities b) \<and>
      (\<forall>i. i \<noteq> j \<longrightarrow> peaks b ! i = peaks a ! i) \<and>
      (\<forall>i. i \<noteq> j \<longrightarrow> i < length (velocities a) \<longrightarrow> velocities b ! i = velocities a ! i))"

definition headingsPresent :: "engine \<Rightarrow> bool" where
  "headingsPresent st =
     (\<forall>i < length (pairStates st). partner (pairStates st ! i) \<noteq> - 1 \<longrightarrow>
        (\<exists>h. arrayGet (pairDirections st) (min (int i) (partner (pairStates st ! i)))
               = Some (Some h)))"

definition headingsKept :: "Vector3 option list \<Rightarrow> Vector3 option list \<Rightarrow> bool" where
  "headingsKept ds ds' =
     (\<forall>q h. arrayGet ds q = Some (Some h) \<longrightarrow> (\<exists>h'. arrayGet ds' q = Some (Some h')))"

definition partnersKept :: "PairState list \<Rightarrow> PairState list \<Rightarrow> bool" where
  "partnersKept ps ps' =
     (length ps' = length ps \<and>
      (\<forall>m < length ps. partner (ps' ! m) = partner (ps ! m) \<or> partner (ps' ! m) = - 1))"

definition wellPaired :: "engine \<Rightarrow> bool" where
  "wellPaired st = (pairSymmetric (pairStates st) \<and> headingsPresent st)"

text \<open>The state of \<open>_findPairs\<close> when the formation loop starts.\<close>

definition beforeFormation :: "engine \<Rightarrow> engine" where
  "beforeFormation st =
     (rebuildGrid (st\<lparr>pairStates := map decayPairState (pairStates st)\<rparr>))
       \<lparr>pairStates := breakCheck (motionSystem st) (peaks st) (map decayPairState (pairStates st))\<rparr>"

definition gridCurrent :: "engine \<Rightarrow> bool" where
  "gridCurrent st = (spatialGrid st = spatialGrid (rebuildGrid st))"

text \<open>The invariant of the formation loop.\<close>

definition formationReady :: "engine \<Rightarrow> bool" where
  "formationReady st =
     (wellPaired st \<and> gridCurrent st \<and> length (peaks st) \<le> length (pairStates st))"

definition mutualLinks :: "engine \<Rightarrow> bool" where
  "mutualLinks st =
     (\<forall>i < length (peaks st). \<forall>j < length (peaks st).
        (partner (pairStates st ! i) = int j) = (partner (pairStates st ! j) = int i))"

text \<open>The invariant of the loop over the agents in \<open>update\<close>.\<close>

definition moveReady :: "nat \<Rightarrow> engine \<Rightarrow> bool" where
  "moveReady n st =
     (wellPaired st \<and> length (peaks st) = n \<and> n \<le> length (pairStates st))"

text \<open>
  A scene in the horizontal plane: every position, target, stored velocity, last
  position, pair heading and break heading has the vertical component 0. The peaks are
  created with \<open>y = 0\<close>, the swarm targets and the random headings are generated with
  \<open>y = 0\<close>.
\<close>

definition flat :: "Vector3 \<Rightarrow> bool" where
  "flat v = (vy v = 0)"

definition bodyFlat :: "engine \<Rightarrow> bool" where
  "bodyFlat st =
     ((\<forall>p \<in> set (peaks st). flat (currentPyramidCenter p) \<and>
          (\<forall>t. evolvingTargetCenter p = Some t \<longrightarrow> flat t)) \<and>
      (\<forall>v \<in> set (lastPositions st). flat v) \<and>
      (\<forall>v \<in> set (velocities st). flat v) \<and>
      (\<forall>frozen. frozenSwarmPositions st = Some frozen \<longrightarrow> (\<forall>v \<in> set frozen. flat v)))"

definition flatHeadings :: "Vector3 option list \<Rightarrow> bool" where
  "flatHeadings ds = (\<forall>h. Some h \<in> set ds \<longrightarrow> flat h)"

definition flatBreaks :: "PairState list \<Rightarrow> bool" where
  "flatBreaks ps = (\<forall>s \<in> set ps. flat (breakHeading s))"

definition planar :: "engine \<Rightarrow> bool" where
  "planar st =
     (bodyFlat st \<and> flatHeadings (pairDirections st) \<and> flatBreaks (pairStates st))"

subsection \<open>Concrete scenes\<close>

definition peakAt :: "Vector3 \<Rightarrow> peak" where
  "peakAt c = \<lparr>currentPyramidCenter = c, categoryVisible = True, exploreSeed = 0,
               evolvingLock = False, evolvingTargetCenter = None, evolvingMoveSpeed = None\<rparr>"

definition solidOf :: "string \<Rightarrow> solid" where
  "solidOf c = \<lparr>actual_category = Some c, assigned_category = None\<rparr>"

definition engineWith :: "peak list \<Rightarrow> solid list \<Rightarrow> PairState list \<Rightarrow> engine" where
  "engineWith pks solids ps =
     \<lparr>peaks = pks, time = 0, updateInterval = 40, frameCounter = 0,
      targetLocked = False, frozenSwarmPositions = None, evolvingActive = False,
      categoryFilterActive = False, stopAllMovement = False,
      spatialGrid = \<lparr>cellSize = 50, grid = Map.empty\<rparr>,
      peakSolids = solids, motionSystem = defaultMotion, pairStates = ps,
      lastPositions = map currentPyramidCenter pks, pairDirections = [],
      velocities = map (\<lambda>_. zeroVec) pks, rng = 0\<rparr>"

text \<open>Scenario B: a paired couple 100 units apart.\<close>

definition farPeaks :: "peak list" where
  "farPeaks = [peakAt (Vec 0 0 0), peakAt (Vec 100 0 0)]"

definition coupleStates :: "PairState list" where
  "coupleStates = [newPairState\<lparr>partner := 1, frames := 100\<rparr>,
                   newPairState\<lparr>partner := 0, frames := 100\<rparr>]"

text \<open>Scenario A: a "low" and a "mid" agent 10 units apart, with the grid rebuilt.\<close>

definition lowMidState :: engine where
  "lowMidState =
     rebuildGrid (engineWith [peakAt (Vec 0 0 0), peakAt (Vec 10 0 0)]
                    [solidOf ''low'', solidOf ''mid''] [newPairState, newPairState])"

text \<open>A "mid" agent with two "low" candidates at the same distance 10.\<close>

definition tieState :: engine where
  "tieState =
     engineWith [peakAt (Vec 0 0 0), peakAt (Vec 10 0 0), peakAt (Vec 0 0 10)]
                [solidOf ''mid'', solidOf ''low'', solidOf ''low'']
                [newPairState, newPairState, newPairState]"

text \<open>A couple 10 units apart, paired for 480 frames, with its shared heading.\<close>

definition pairedState :: engine where
  "pairedState =
     (engineWith [peakAt (Vec 0 0 0), peakAt (Vec 10 0 0)] []
        [newPairState\<lparr>partner := 1, frames := 480\<rparr>, newPairState\<lparr>partner := 0, frames := 480\<rparr>])
       \<lparr>pairDirections := [Some (Vec 1 0 0), Some (Vec 1 0 0)]\<rparr>"

text \<open>Scenario D: ten agents, agents 2 and 7 paired.\<close>

definition tenPairs :: "PairState list" where
  "tenPairs = (replicate 10 newPairState)
                [2 := newPairState\<lparr>partner := 7\<rparr>, 7 := newPairState\<lparr>partner := 2\<rparr>]"

definition tenState :: engine where
  "tenState = engineWith (initPeaks (\<lambda>_. 0)) [] tenPairs"

text \<open>One unpaired agent, 10 units above the horizontal plane.\<close>

definition raisedState :: engine where
  "raisedState = engineWith [peakAt (Vec 100 10 0)] [] [newPairState]"

section \<open>Verified properties\<close>

subsection \<open>The grid query\<close>

lemma cellSize_insert [simp]: "cellSize (SpatialGrid_insert g i p) = cellSize g"
  by (simp add: SpatialGrid_insert_def Let_def)

lemma cellSize_insertAll [simp]: "cellSize (insertAll g agents) = cellSize g"
  unfolding insertAll_def by (induction agents arbitrary: g) (auto)

lemma cellAt_insert:
  "cellAt (SpatialGrid_insert g i p) key =
     (if key = SpatialGrid_hash g (vx p) (vz p) then cellAt g key @ [i] else cellAt g key)"
  by (simp add: SpatialGrid_insert_def cellAt_def Let_def)

lemma cellAt_insertAll_mono:
  "j \<in> set (cellAt g key) \<Longrightarrow> j \<in> set (cellAt (insertAll g agents) key)"
proof (induction agents arbitrary: g)
  case Nil
  then show ?case by (simp add: insertAll_def)
next
  case (Cons a agents)
  obtain i p where a: "a = (i, p)" by (cases a)
  have "j \<in> set (cellAt (SpatialGrid_insert g i p) key)"
    using Cons.prems by (auto simp: cellAt_insert)
  from Cons.IH [OF this] show ?case
    by (simp add: insertAll_def a)
qed

lemma cellAt_insertAll_member:
  "(i, p) \<in> set agents \<Longrightarrow>
   i \<in> set (cellAt (insertAll g agents) (SpatialGrid_hash g (vx p) (vz p)))"
proof (induction agents arbitrary: g)
  case Nil
  then show ?case by simp
next
  case (Cons a agents)
  obtain i' p' where a: "a = (i', p')" by (cases a)
  let ?g = "SpatialGrid_insert g i' p'"
  have hash: "SpatialGrid_hash ?g = SpatialGrid_hash g"
    by (simp add: SpatialGrid_hash_def fun_eq_iff)
  show ?case
  proof (cases "(i, p) = (i', p')")
    case True
    have "i \<in> set (cellAt ?g (SpatialGrid_hash g (vx p) (vz p)))"
      using True by (simp add: cellAt_insert)
    from cellAt_insertAll_mono [OF this] show ?thesis
      by (simp add: insertAll_def a)
  next
    case False
    with Cons.prems a have "(i, p) \<in> set agents" by auto
    from Cons.IH [OF this, of ?g] show ?thesis
      by (simp add: insertAll_def a hash)
  qed
qed

lemma getNearby_member:
  assumes "j \<in> set (cellAt g (kx, kz))"
    and "\<bar>kx - \<lfloor>vx q / cellSize g\<rfloor>\<bar> \<le> \<lceil>r / cellSize g\<rceil>"
    and "\<bar>kz - \<lfloor>vz q / cellSize g\<rfloor>\<bar> \<le> \<lceil>r / cellSize g\<rceil>"
  shows "j \<in> set (SpatialGrid_getNearby g q r)"
proof -
  define c where "c = \<lceil>r / cellSize g\<rceil>"
  define cx where "cx = \<lfloor>vx q / cellSize g\<rfloor>"
  define cz where "cz = \<lfloor>vz q / cellSize g\<rfloor>"
  have dx: "kx - cx \<in> set [- c..c]"
    using assms(2) unfolding c_def cx_def by (simp add: abs_le_iff)
  have dz: "kz - cz \<in> set [- c..c]"
    using assms(3) unfolding c_def cz_def by (simp add: abs_le_iff)
  have mem: "j \<in> set (cellAt g (cx + (kx - cx), cz + (kz - cz)))"
    using assms(1) by simp
  have inner: "j \<in> set (concat (map (\<lambda>dz. cellAt g (cx + (kx - cx), cz + dz)) [- c..c]))"
    unfolding set_concat set_map using dz mem by (rule_tac UN_I [OF imageI]) 
  have "j \<in> set (concat (map (\<lambda>dx. concat (map (\<lambda>dz. cellAt g (cx + dx, cz + dz)) [- c..c])) [- c..c]))"
    unfolding set_concat set_map using dx inner by (rule_tac UN_I [OF imageI])
  then show ?thesis
    unfolding SpatialGrid_getNearby_def Let_def c_def cx_def cz_def .
qed
lemma cell_offset_bound:
  fixes a b r c :: real
  assumes "0 < c" and "\<bar>a - b\<bar> \<le> r"
  shows "\<bar>\<lfloor>a / c\<rfloor> - \<lfloor>b / c\<rfloor>\<bar> \<le> \<lceil>r / c\<rceil>"
proof -
  have d: "\<bar>a / c - b / c\<bar> \<le> r / c"
  proof -
    have "\<bar>a / c - b / c\<bar> = \<bar>a - b\<bar> / c"
      using assms(1) by (simp add: diff_divide_distrib [symmetric])
    also have "\<dots> \<le> r / c"
      using assms by (simp add: divide_right_mono)
    finally show ?thesis .
  qed
  have "r / c \<le> of_int \<lceil>r / c\<rceil>" by (rule le_of_int_ceiling)
  with d have d': "\<bar>a / c - b / c\<bar> \<le> of_int \<lceil>r / c\<rceil>" by linarith
  have u: "a / c \<le> b / c + of_int \<lceil>r / c\<rceil>" using d' by linarith
  have l: "b / c \<le> a / c + of_int \<lceil>r / c\<rceil>" using d' by linarith
  have "\<lfloor>a / c\<rfloor> \<le> \<lfloor>b / c + of_int \<lceil>r / c\<rceil>\<rfloor>" by (rule floor_mono [OF u])
  then have 1: "\<lfloor>a / c\<rfloor> \<le> \<lfloor>b / c\<rfloor> + \<lceil>r / c\<rceil>" by simp
  have "\<lfloor>b / c\<rfloor> \<le> \<lfloor>a / c + of_int \<lceil>r / c\<rceil>\<rfloor>" by (rule floor_mono [OF l])
  then have 2: "\<lfloor>b / c\<rfloor> \<le> \<lfloor>a / c\<rfloor> + \<lceil>r / c\<rceil>" by simp
  from 1 2 show ?thesis by linarith
qed

lemma planar_components:
  assumes "planarDistance p q \<le> r"
  shows "\<bar>vx p - vx q\<bar> \<le> r" and "\<bar>vz p - vz q\<bar> \<le> r"
proof -
  have "\<bar>vx p - vx q\<bar> = sqrt ((vx p - vx q)\<^sup>2)" by simp
  also have "\<dots> \<le> planarDistance p q"
    unfolding planarDistance_def by (rule real_sqrt_le_mono) simp
  finally show "\<bar>vx p - vx q\<bar> \<le> r" using assms by linarith
  have "\<bar>vz p - vz q\<bar> = sqrt ((vz p - vz q)\<^sup>2)" by simp
  also have "\<dots> \<le> planarDistance p q"
    unfolding planarDistance_def by (rule real_sqrt_le_mono) simp
  finally show "\<bar>vz p - vz q\<bar> \<le> r" using assms by linarith
qed

lemma getNearby_contains:
  assumes "0 < cellSize g"
    and "(i, p) \<in> set agents"
    and "planarDistance p q \<le> r"
  shows "i \<in> set (SpatialGrid_getNearby (insertAll (SpatialGrid_clear g) agents) q r)"
proof -
  define G where "G = insertAll (SpatialGrid_clear g) agents"
  have cs: "cellSize G = cellSize g"
    by (simp add: G_def SpatialGrid_clear_def)
  have "i \<in> set (cellAt G (SpatialGrid_hash (SpatialGrid_clear g) (vx p) (vz p)))"
    unfolding G_def by (rule cellAt_insertAll_member [OF assms(2)])
  then have m: "i \<in> set (cellAt G (\<lfloor>vx p / cellSize G\<rfloor>, \<lfloor>vz p / cellSize G\<rfloor>))"
    by (simp add: SpatialGrid_hash_def SpatialGrid_clear_def cs)
  have bx: "\<bar>\<lfloor>vx p / cellSize G\<rfloor> - \<lfloor>vx q / cellSize G\<rfloor>\<bar> \<le> \<lceil>r / cellSize G\<rceil>"
    unfolding cs by (rule cell_offset_bound [OF assms(1) planar_components(1) [OF assms(3)]])
  have bz: "\<bar>\<lfloor>vz p / cellSize G\<rfloor> - \<lfloor>vz q / cellSize G\<rfloor>\<bar> \<le> \<lceil>r / cellSize G\<rceil>"
    unfolding cs by (rule cell_offset_bound [OF assms(1) planar_components(2) [OF assms(3)]])
  have "i \<in> set (SpatialGrid_getNearby G q r)"
    by (rule getNearby_member [OF m bx bz])
  then show ?thesis by (simp add: G_def)
qed



subsection \<open>The distance-based break check\<close>

lemma length_modify [simp]: "length (modify k f xs) = length xs"
  by (simp add: modify_def)

lemma nth_modify:
  "m < length xs \<Longrightarrow> modify k f xs ! m = (if m = k then f (xs ! k) else xs ! m)"
  by (simp add: modify_def)

lemma arrayGet_Some:
  "arrayGet xs i = Some v \<longleftrightarrow> 0 \<le> i \<and> nat i < length xs \<and> v = xs ! nat i"
  by (auto simp: arrayGet_def)

lemma arrayGet_nat [simp]: "arrayGet xs (int k) = (if k < length xs then Some (xs ! k) else None)"
  by (simp add: arrayGet_def)

lemma length_breakCheckStep [simp]: "length (breakCheckStep M pks k ps) = length ps"
  by (simp add: breakCheckStep_def Let_def split: option.splits)

lemma breakCheckStep_idle: "\<not> breaks M pks k ps \<Longrightarrow> breakCheckStep M pks k ps = ps"
  by (auto simp: breakCheckStep_def breaks_def Let_def arrayGet_def split: option.splits)

lemma breakCheckStep_other:
  assumes "m < length ps" "m \<noteq> k" "partner (ps ! k) \<noteq> int m"
  shows "breakCheckStep M pks k ps ! m = ps ! m"
  using assms
  by (auto simp: breakCheckStep_def Let_def arrayGet_def nth_modify split: option.splits)

lemma breakCheckStep_broken:
  assumes "breaks M pks k ps" "k < length ps" "p = nat (partner (ps ! k))"
  shows "breakCheckStep M pks k ps =
           modify p (\<lambda>s. s\<lparr>partner := - 1, frames := 0, cooldown := pairCooldown M\<rparr>)
            (modify k (\<lambda>s. s\<lparr>partner := - 1, frames := 0, cooldown := pairCooldown M\<rparr>)
              (modify p (\<lambda>s. s\<lparr>breakGrace := breakGraceFrames M, breakPartner := int k\<rparr>)
                (modify k (\<lambda>s. s\<lparr>breakGrace := breakGraceFrames M,
                                    breakPartner := partner (ps ! k)\<rparr>) ps)))"
  using assms
  by (auto simp: breakCheckStep_def breaks_def Let_def arrayGet_def split: option.splits)

lemma breakCheckStep_partner:
  assumes "breaks M pks k ps" "k < length ps" "m < length ps"
  shows "partner (breakCheckStep M pks k ps ! m) =
           (if m = k \<or> m = nat (partner (ps ! k)) then - 1 else partner (ps ! m))"
  using assms
  by (simp add: breakCheckStep_broken [OF assms(1,2) refl] nth_modify)

lemma breakCheckStep_symmetric:
  assumes sym: "pairSymmetric ps" and k: "k < length ps"
  shows "pairSymmetric (breakCheckStep M pks k ps)"
proof (cases "breaks M pks k ps")
  case False
  then show ?thesis using sym by (simp add: breakCheckStep_idle)
next
  case True
  define p where "p = nat (partner (ps ! k))"
  have pk: "partner (ps ! k) = int p" "p < length ps" "partner (ps ! k) \<noteq> - 1"
    using True by (auto simp: breaks_def p_def)
  have ret: "partner (ps ! p) = int k"
    using sym k pk unfolding pairSymmetric_def p_def by auto
  show ?thesis
    unfolding pairSymmetric_def
  proof (intro allI impI)
    fix m
    assume m: "m < length (breakCheckStep M pks k ps)"
      and pm: "partner (breakCheckStep M pks k ps ! m) \<noteq> - 1"
    from m have m': "m < length ps" by simp
    have mk: "m \<noteq> k" "m \<noteq> p" and same: "partner (breakCheckStep M pks k ps ! m) = partner (ps ! m)"
      using pm breakCheckStep_partner [OF True k m'] by (auto simp: p_def split: if_splits)
    define q where "q = nat (partner (ps ! m))"
    have q: "0 \<le> partner (ps ! m)" "q < length ps" "partner (ps ! q) = int m"
      using sym m' pm same unfolding pairSymmetric_def q_def by auto
    have qk: "q \<noteq> k" using q(3) pk(1) mk by auto
    have qp: "q \<noteq> p" using q(3) ret mk by auto
    have "partner (breakCheckStep M pks k ps ! q) = partner (ps ! q)"
      using breakCheckStep_partner [OF True k q(2)] qk qp by (simp add: p_def)
    then show "0 \<le> partner (breakCheckStep M pks k ps ! m) \<and>
            nat (partner (breakCheckStep M pks k ps ! m)) < length (breakCheckStep M pks k ps) \<and>
            partner (breakCheckStep M pks k ps ! nat (partner (breakCheckStep M pks k ps ! m))) = int m"
      using q same by (simp add: q_def)
  qed
qed

lemma breakCheckStep_keeps_broken:
  assumes "brokenCouple M i j ps" "i < length ps" "j < length ps" "k < length ps"
    "pairSymmetric ps"
  shows "brokenCouple M i j (breakCheckStep M pks k ps)"
proof -
  have pi: "partner (ps ! i) = - 1" and pj: "partner (ps ! j) = - 1"
    using assms(1) by (auto simp: brokenCouple_def)
  have ki: "partner (ps ! k) \<noteq> int i" and kj: "partner (ps ! k) \<noteq> int j"
    using assms(2-5) pi pj unfolding pairSymmetric_def by force+
  have "breakCheckStep M pks k ps ! i = ps ! i"
  proof (cases "k = i")
    case True
    then show ?thesis using pi by (simp add: breakCheckStep_idle breaks_def)
  next
    case False
    then show ?thesis using breakCheckStep_other [OF assms(2) _ ki] by simp
  qed
  moreover have "breakCheckStep M pks k ps ! j = ps ! j"
  proof (cases "k = j")
    case True
    then show ?thesis using pj by (simp add: breakCheckStep_idle breaks_def)
  next
    case False
    then show ?thesis using breakCheckStep_other [OF assms(3) _ kj] by simp
  qed
  ultimately show ?thesis using assms(1) by (simp add: brokenCouple_def)
qed

lemma fold_breakCheckStep_length [simp]:
  "length (fold (breakCheckStep M pks) ks ps) = length ps"
  by (induction ks arbitrary: ps) auto

lemma fold_breakCheckStep_symmetric:
  "pairSymmetric ps \<Longrightarrow> \<forall>k \<in> set ks. k < length ps \<Longrightarrow>
   pairSymmetric (fold (breakCheckStep M pks) ks ps)"
  by (induction ks arbitrary: ps) (auto simp: breakCheckStep_symmetric)

lemma fold_keeps_broken:
  "brokenCouple M i j ps \<Longrightarrow> pairSymmetric ps \<Longrightarrow> i < length ps \<Longrightarrow> j < length ps \<Longrightarrow>
   \<forall>k \<in> set ks. k < length ps \<Longrightarrow>
   brokenCouple M i j (fold (breakCheckStep M pks) ks ps)"
  by (induction ks arbitrary: ps)
     (auto simp: breakCheckStep_symmetric breakCheckStep_keeps_broken)

lemma lengthSq_nonneg [simp]: "0 \<le> lengthSq v"
  by (simp add: lengthSq_def)

lemma distanceTo_commute: "distanceTo a b = distanceTo b a"
proof -
  have "lengthSq (subVectors a b) = lengthSq (subVectors b a)"
    by (simp add: lengthSq_def subVectors_def Vec_def algebra_simps)
  then show ?thesis by (simp add: distanceTo_def vlength_def)
qed

lemma planar_le_distanceTo: "planarDistance a b \<le> distanceTo a b"
  unfolding planarDistance_def distanceTo_def vlength_def
  by (rule real_sqrt_le_mono)
     (simp add: lengthSq_def subVectors_def Vec_def power2_eq_square)

lemma brokenCouple_commute: "brokenCouple M i j ps = brokenCouple M j i ps"
  by (auto simp: brokenCouple_def)

lemma breakCheckStep_couple:
  assumes "breaks M pks k ps" "k < length ps" "partner (ps ! k) = int p" "p < length ps"
  shows "brokenCouple M k p (breakCheckStep M pks k ps)"
proof -
  have p: "p = nat (partner (ps ! k))" using assms(3) by simp
  show ?thesis
    unfolding breakCheckStep_broken [OF assms(1,2) p] brokenCouple_def
    using assms(2,3,4) by (simp add: nth_modify)
qed

lemma fold_breaks_couple:
  assumes "pairSymmetric ps" "i < length ps" "j < length ps" "partner (ps ! i) = int j"
    "i < length pks" "j < length pks"
    "distanceTo (currentPyramidCenter (pks ! i)) (currentPyramidCenter (pks ! j)) > pairKeepRadius M"
    "\<forall>k \<in> set ks. k < length ps" "i \<in> set ks"
  shows "brokenCouple M i j (fold (breakCheckStep M pks) ks ps)"
  using assms
proof (induction ks arbitrary: ps)
  case Nil
  then show ?case by simp
next
  case (Cons k ks)
  have k: "k < length ps" using Cons.prems(8) by simp
  have ks: "\<forall>m \<in> set ks. m < length (breakCheckStep M pks k ps)"
    using Cons.prems(8) by simp
  have ret: "partner (ps ! j) = int i"
    using Cons.prems(1,2,4) unfolding pairSymmetric_def by force
  have sym': "pairSymmetric (breakCheckStep M pks k ps)"
    by (rule breakCheckStep_symmetric [OF Cons.prems(1) k])
  consider (i) "k = i" | (j) "k = j" | (other) "k \<noteq> i" "k \<noteq> j" by blast
  then show ?case
  proof cases
    case i
    have "breaks M pks i ps"
      using Cons.prems(2-7) by (simp add: breaks_def)
    from breakCheckStep_couple [OF this Cons.prems(2,4,3)]
    have "brokenCouple M i j (breakCheckStep M pks k ps)" by (simp add: i)
    from fold_keeps_broken [OF this sym' _ _ ks] show ?thesis
      using Cons.prems(2,3) by simp
  next
    case j
    have "breaks M pks j ps"
      using Cons.prems(2-7) ret by (simp add: breaks_def distanceTo_commute)
    from breakCheckStep_couple [OF this Cons.prems(3) ret Cons.prems(2)]
    have "brokenCouple M i j (breakCheckStep M pks k ps)"
      by (simp add: j brokenCouple_commute)
    from fold_keeps_broken [OF this sym' _ _ ks] show ?thesis
      using Cons.prems(2,3) by simp
  next
    case other
    have ki: "partner (ps ! k) \<noteq> int i"
    proof
      assume "partner (ps ! k) = int i"
      then have "partner (ps ! i) = int k"
        using Cons.prems(1) k unfolding pairSymmetric_def by force
      with Cons.prems(4) other show False by simp
    qed
    have ei: "breakCheckStep M pks k ps ! i = ps ! i"
      using breakCheckStep_other [OF Cons.prems(2) _ ki] other by simp
    have "brokenCouple M i j (fold (breakCheckStep M pks) ks (breakCheckStep M pks k ps))"
    proof (rule Cons.IH [OF sym'])
      show "i \<in> set ks" using Cons.prems(9) other by simp
    qed (use Cons.prems ei ks in simp_all)
    then show ?thesis by simp
  qed
qed

text \<open>
  C5. Distance-break postcondition: when the pairing links are mutual and a couple
  \<open>i\<close>, \<open>j\<close> of the current population is farther apart in the plane than the keep
  radius when the break check starts, then after the break check both members have
  \<open>partner = -1\<close>, \<open>frames = 0\<close>, \<open>cooldown = pairCooldown\<close>,
  \<open>breakGrace = breakGraceFrames\<close> and each other as \<open>breakPartner\<close>.
\<close>

theorem breakCheck_distance_break:
  assumes "pairSymmetric ps"
    and "i < length ps" and "j < length ps" and "partner (ps ! i) = int j"
    and "i < length pks" and "j < length pks"
    and "planarDistance (currentPyramidCenter (pks ! i)) (currentPyramidCenter (pks ! j))
           > pairKeepRadius M"
  shows "brokenCouple M i j (breakCheck M pks ps)"
proof -
  have "distanceTo (currentPyramidCenter (pks ! i)) (currentPyramidCenter (pks ! j))
          > pairKeepRadius M"
    using assms(7) planar_le_distanceTo
      [of "currentPyramidCenter (pks ! i)" "currentPyramidCenter (pks ! j)"] by linarith
  from fold_breaks_couple [OF assms(1-6) this, of "[0..<length ps]"] assms(2)
  show ?thesis by (simp add: breakCheck_def)
qed

lemma sqrt_10000: "sqrt 10000 = 100"
  using real_sqrt_abs [of 100] by simp

theorem breakCheck_distance_break_witness:
  "pairSymmetric coupleStates \<and> partner (coupleStates ! 0) = int 1 \<and>
   planarDistance (currentPyramidCenter (farPeaks ! 0)) (currentPyramidCenter (farPeaks ! 1))
     > pairKeepRadius defaultMotion \<and>
   brokenCouple defaultMotion 0 1 (breakCheck defaultMotion farPeaks coupleStates)"
proof -
  have s: "pairSymmetric coupleStates"
    by (simp add: pairSymmetric_def coupleStates_def less_Suc_eq)
  have p: "partner (coupleStates ! 0) = int 1" by (simp add: coupleStates_def)
  have l: "0 < length coupleStates" "1 < length coupleStates"
    "0 < length farPeaks" "1 < length farPeaks"
    by (simp_all add: coupleStates_def farPeaks_def)
  have d: "planarDistance (currentPyramidCenter (farPeaks ! 0)) (currentPyramidCenter (farPeaks ! 1))
             > pairKeepRadius defaultMotion"
    by (simp add: farPeaks_def peakAt_def planarDistance_def Vec_def defaultMotion_def sqrt_10000)
  from s p d breakCheck_distance_break [OF s l(1,2) p l(3,4) d] show ?thesis by (intro conjI)
qed

subsection \<open>The formation pass\<close>

lemma forEach_snoc:
  "forEach body (xs @ [x]) s = (case forEach body xs s of None \<Rightarrow> None | Some s' \<Rightarrow> body x s')"
  by (induction xs arbitrary: s) (auto split: option.splits)

lemma candidateStep_eq:
  assumes "j < length (pairStates st)"
  shows "candidateStep st i peakA catA j best =
           Some (if eligible st i catA j \<and> distanceFrom st peakA j \<le> snd best
                 then (int j, distanceFrom st peakA j) else best)"
  using assms
  by (auto simp: candidateStep_def eligible_def distanceFrom_def Let_def)

lemma bestAmong_Nil: "bestAmong st i peakA catA [] b0 d0 b0 d0"
  by (simp add: bestAmong_def)

lemma bestAmong_le: "bestAmong st i peakA catA js b0 d0 b d \<Longrightarrow> d \<le> d0"
  by (auto simp: bestAmong_def)

lemma bestAmong_take:
  assumes "bestAmong st i peakA catA js b0 d0 b d"
    and "eligible st i catA x" and "distanceFrom st peakA x \<le> d"
  shows "bestAmong st i peakA catA (js @ [x]) b0 d0 (int x) (distanceFrom st peakA x)"
proof -
  have low: "\<forall>j \<in> set (js @ [x]). eligible st i catA j \<longrightarrow>
               distanceFrom st peakA x \<le> distanceFrom st peakA j"
    using assms by (force simp: bestAmong_def)
  have "js @ [x] = js @ x # [] \<and> int x = int x \<and> eligible st i catA x \<and>
        distanceFrom st peakA x = distanceFrom st peakA x \<and> distanceFrom st peakA x \<le> d0 \<and>
        (\<forall>k \<in> set []. eligible st i catA k \<longrightarrow> distanceFrom st peakA x < distanceFrom st peakA k)"
    using assms(2,3) bestAmong_le [OF assms(1)] by simp
  then have "\<exists>xs j ys. js @ [x] = xs @ j # ys \<and> int x = int j \<and> eligible st i catA j \<and>
        distanceFrom st peakA j = distanceFrom st peakA x \<and> distanceFrom st peakA x \<le> d0 \<and>
        (\<forall>k \<in> set ys. eligible st i catA k \<longrightarrow> distanceFrom st peakA x < distanceFrom st peakA k)"
    by blast
  with low show ?thesis unfolding bestAmong_def by blast
qed

lemma bestAmong_skip:
  assumes "bestAmong st i peakA catA js b0 d0 b d"
    and "eligible st i catA x \<longrightarrow> d < distanceFrom st peakA x"
  shows "bestAmong st i peakA catA (js @ [x]) b0 d0 b d"
proof -
  have low: "\<forall>j \<in> set (js @ [x]). eligible st i catA j \<longrightarrow> d \<le> distanceFrom st peakA j"
    using assms by (force simp: bestAmong_def)
  from assms(1) consider
    (same) "b = b0" "d = d0"
       "\<forall>j \<in> set js. eligible st i catA j \<longrightarrow> d0 < distanceFrom st peakA j"
  | (found) xs j ys where "js = xs @ j # ys" "b = int j" "eligible st i catA j"
       "distanceFrom st peakA j = d" "d \<le> d0"
       "\<forall>k \<in> set ys. eligible st i catA k \<longrightarrow> d < distanceFrom st peakA k"
    unfolding bestAmong_def by blast
  then show ?thesis
  proof cases
    case same
    then have "\<forall>j \<in> set (js @ [x]). eligible st i catA j \<longrightarrow> d0 < distanceFrom st peakA j"
      using assms(2) by auto
    with same low show ?thesis unfolding bestAmong_def by blast
  next
    case found
    have "js @ [x] = xs @ j # (ys @ [x])" using found(1) by simp
    moreover have "\<forall>k \<in> set (ys @ [x]). eligible st i catA k \<longrightarrow> d < distanceFrom st peakA k"
      using found(6) assms(2) by auto
    ultimately have "\<exists>xs j ys. js @ [x] = xs @ j # ys \<and> b = int j \<and> eligible st i catA j \<and>
          distanceFrom st peakA j = d \<and> d \<le> d0 \<and>
          (\<forall>k \<in> set ys. eligible st i catA k \<longrightarrow> d < distanceFrom st peakA k)"
      using found(2-5) by blast
    with low show ?thesis unfolding bestAmong_def by blast
  qed
qed

lemma scan_result:
  assumes "\<forall>j \<in> set js. j < length (pairStates st)"
  shows "\<exists>b d. forEach (candidateStep st i peakA catA) js (b0, d0) = Some (b, d) \<and>
           bestAmong st i peakA catA js b0 d0 b d"
  using assms
proof (induction js rule: rev_induct)
  case Nil
  then show ?case by (simp add: bestAmong_Nil)
next
  case (snoc x js)
  then obtain b d where
    run: "forEach (candidateStep st i peakA catA) js (b0, d0) = Some (b, d)" and
    best: "bestAmong st i peakA catA js b0 d0 b d"
    by auto
  have x: "x < length (pairStates st)" using snoc.prems by simp
  show ?case
  proof (cases "eligible st i catA x \<and> distanceFrom st peakA x \<le> d")
    case True
    have "forEach (candidateStep st i peakA catA) (js @ [x]) (b0, d0)
                 = Some (int x, distanceFrom st peakA x)"
      using True by (simp add: forEach_snoc run candidateStep_eq [OF x])
    with bestAmong_take [OF best] True show ?thesis by blast
  next
    case False
    have "forEach (candidateStep st i peakA catA) (js @ [x]) (b0, d0) = Some (b, d)"
      using False by (auto simp: forEach_snoc run candidateStep_eq [OF x])
    moreover have "eligible st i catA x \<longrightarrow> d < distanceFrom st peakA x"
      using False by auto
    ultimately show ?thesis using bestAmong_skip [OF best] by blast
  qed
qed

lemma cellAt_insertAll_source:
  "j \<in> set (cellAt (insertAll g agents) key) \<Longrightarrow>
   j \<in> set (cellAt g key) \<or> j \<in> fst ` set agents"
proof (induction agents arbitrary: g)
  case Nil
  then show ?case by (simp add: insertAll_def)
next
  case (Cons a agents)
  obtain i p where a: "a = (i, p)" by (cases a)
  from Cons.prems have "j \<in> set (cellAt (insertAll (SpatialGrid_insert g i p) agents) key)"
    by (simp add: insertAll_def a)
  from Cons.IH [OF this] show ?case
    by (auto simp: a cellAt_insert split: if_splits)
qed

lemma concat_map_source:
  "j \<in> set (concat (map f xs)) \<Longrightarrow> \<exists>x \<in> set xs. j \<in> set (f x)"
  by auto

lemma getNearby_source:
  assumes "j \<in> set (SpatialGrid_getNearby g q r)"
  shows "\<exists>key. j \<in> set (cellAt g key)"
proof -
  from assms obtain dx where
    "j \<in> set (concat (map (\<lambda>dz. cellAt g (\<lfloor>vx q / cellSize g\<rfloor> + dx, \<lfloor>vz q / cellSize g\<rfloor> + dz))
                     [- \<lceil>r / cellSize g\<rceil>..\<lceil>r / cellSize g\<rceil>]))"
    unfolding SpatialGrid_getNearby_def Let_def by (blast dest: concat_map_source)
  then show ?thesis by (blast dest: concat_map_source)
qed

lemma cellAt_clear [simp]: "cellAt (SpatialGrid_clear g) key = []"
  by (simp add: cellAt_def SpatialGrid_clear_def)

lemma rebuildGrid_nearby_range:
  assumes "j \<in> set (SpatialGrid_getNearby (spatialGrid (rebuildGrid st)) q r)"
  shows "j < length (peaks st)"
proof -
  from getNearby_source [OF assms] obtain key where
    "j \<in> set (cellAt (spatialGrid (rebuildGrid st)) key)" ..
  then have "j \<in> fst ` set (zip [0..<length (peaks st)] (map currentPyramidCenter (peaks st)))"
    using cellAt_insertAll_source by (fastforce simp: rebuildGrid_def)
  then show ?thesis by (auto dest: set_zip_leftD)
qed

lemma rebuildGrid_nearby_superset:
  assumes "0 < cellSize (spatialGrid st)" "j < length (peaks st)"
    "planarDistance (currentPyramidCenter (peaks st ! j)) q \<le> r"
  shows "j \<in> set (SpatialGrid_getNearby (spatialGrid (rebuildGrid st)) q r)"
proof -
  have "(j, currentPyramidCenter (peaks st ! j))
          \<in> set (zip [0..<length (peaks st)] (map currentPyramidCenter (peaks st)))"
    using assms(2) by (force simp: set_zip)
  from getNearby_contains [OF assms(1) this assms(3)] show ?thesis
    by (simp add: rebuildGrid_def)
qed

lemma linkPair_partner:
  assumes "i < length (pairStates st)" "b < length (pairStates st)" "i \<noteq> b"
  shows "partner (pairStates (linkPair rnd i b st) ! i) = int b"
    and "partner (pairStates (linkPair rnd i b st) ! b) = int i"
  using assms
  by (auto simp: linkPair_def Let_def nth_modify split: option.splits)

lemma clear_insert [simp]: "SpatialGrid_clear (SpatialGrid_insert g i p) = SpatialGrid_clear g"
  by (simp add: SpatialGrid_clear_def SpatialGrid_insert_def Let_def)

lemma clear_insertAll [simp]: "SpatialGrid_clear (insertAll g agents) = SpatialGrid_clear g"
  unfolding insertAll_def by (induction agents arbitrary: g) auto

lemma clear_clear [simp]: "SpatialGrid_clear (SpatialGrid_clear g) = SpatialGrid_clear g"
  by (simp add: SpatialGrid_clear_def)

lemma rebuildGrid_idem: "spatialGrid (rebuildGrid (rebuildGrid st)) = spatialGrid (rebuildGrid st)"
  by (simp add: rebuildGrid_def)

text \<open>
  C4 (as the code has it). Closest-candidate formation: with the grid current, an agent
  \<open>i\<close> that is unpaired, off cooldown and has a category \<open>catA\<close> is linked, mutually, to
  the eligible candidate closest to it within the formation radius, if there is one, and
  is left alone otherwise. Among eligible candidates at exactly the same distance the one
  that \<open>getNearby\<close> lists last wins (the comparison is \<open>dist <= bestDist\<close>): every
  eligible candidate listed after the chosen one is strictly farther.
\<close>

theorem formationStep_closest:
  assumes grid: "spatialGrid st = spatialGrid (rebuildGrid st)"
    and cs: "0 < cellSize (spatialGrid st)"
    and len: "length (peaks st) \<le> length (pairStates st)"
    and i: "i < length (peaks st)"
    and free: "partner (pairStates st ! i) = - 1" "\<not> cooldown (pairStates st ! i) > 0"
    and cat: "categoryOf (peakSolids st) i = Some catA" "catA \<noteq> []"
  shows "\<exists>st'. formationStep rnd i st = Some st' \<and>
     (if \<exists>j. eligible st i catA j \<and>
              distanceFrom st (peaks st ! i) j \<le> pairFormRadius (motionSystem st)
      then \<exists>b xs ys.
             eligible st i catA b \<and>
             partner (pairStates st' ! i) = int b \<and> partner (pairStates st' ! b) = int i \<and>
             distanceFrom st (peaks st ! i) b \<le> pairFormRadius (motionSystem st) \<and>
             (\<forall>j. eligible st i catA j \<longrightarrow>
                  distanceFrom st (peaks st ! i) b \<le> distanceFrom st (peaks st ! i) j) \<and>
             SpatialGrid_getNearby (spatialGrid st) (currentPyramidCenter (peaks st ! i))
               (pairFormRadius (motionSystem st)) = xs @ b # ys \<and>
             (\<forall>k \<in> set ys. eligible st i catA k \<longrightarrow>
                  distanceFrom st (peaks st ! i) b < distanceFrom st (peaks st ! i) k)
      else st' = st)"
proof -
  define R where "R = pairFormRadius (motionSystem st)"
  define peakA where "peakA = peaks st ! i"
  define nearby where
    "nearby = SpatialGrid_getNearby (spatialGrid st) (currentPyramidCenter peakA) R"
  have range: "\<forall>j \<in> set nearby. j < length (pairStates st)"
    using rebuildGrid_nearby_range [of _ st] len unfolding nearby_def grid by fastforce
  from scan_result [OF range, of i peakA catA "- 1" R]
  obtain b d where
    run: "forEach (candidateStep st i peakA catA) nearby (- 1, R) = Some (b, d)" and
    best: "bestAmong st i peakA catA nearby (- 1) R b d"
    by blast
  have step: "formationStep rnd i st =
                (if b \<noteq> - 1 then Some (linkPair rnd i (nat b) st) else Some st)"
    using i len free cat run
    by (simp add: formationStep_def R_def [symmetric] peakA_def [symmetric] nearby_def [symmetric])
  have outside: "distanceFrom st peakA j > R" if "eligible st i catA j" "j \<notin> set nearby" for j
  proof (rule ccontr)
    assume "\<not> distanceFrom st peakA j > R"
    then have "planarDistance (currentPyramidCenter (peaks st ! j)) (currentPyramidCenter peakA) \<le> R"
      using planar_le_distanceTo [of "currentPyramidCenter (peaks st ! j)" "currentPyramidCenter peakA"]
      by (simp add: distanceFrom_def distanceTo_commute)
    from rebuildGrid_nearby_superset [OF cs _ this] that show False
      by (simp add: nearby_def grid eligible_def)
  qed
  from best consider
    (none) "b = - 1" "d = R"
       "\<forall>j \<in> set nearby. eligible st i catA j \<longrightarrow> R < distanceFrom st peakA j"
  | (found) xs j ys where "nearby = xs @ j # ys" "b = int j" "eligible st i catA j"
       "distanceFrom st peakA j = d" "d \<le> R"
       "\<forall>k \<in> set ys. eligible st i catA k \<longrightarrow> d < distanceFrom st peakA k"
    unfolding bestAmong_def by blast
  then show ?thesis
  proof cases
    case none
    have neg: "\<not> (\<exists>j. eligible st i catA j \<and> distanceFrom st peakA j \<le> R)"
      using none(3) outside by force
    have "formationStep rnd i st = Some st"
      using none(1) by (simp add: step)
    then show ?thesis
      using neg unfolding R_def peakA_def by auto
  next
    case found
    have low: "\<forall>k. eligible st i catA k \<longrightarrow> distanceFrom st peakA j \<le> distanceFrom st peakA k"
    proof (intro allI impI)
      fix k assume k: "eligible st i catA k"
      show "distanceFrom st peakA j \<le> distanceFrom st peakA k"
      proof (cases "k \<in> set nearby")
        case True
        then show ?thesis using best k found(4) by (auto simp: bestAmong_def)
      next
        case False
        from outside [OF k False] found(4,5) show ?thesis by simp
      qed
    qed
    have ji: "j \<noteq> i" "j < length (pairStates st)"
      using found(3) by (auto simp: eligible_def)
    have ii: "i < length (pairStates st)" using i len by simp
    have st': "formationStep rnd i st = Some (linkPair rnd i j st)"
      using found(2) by (simp add: step)
    have ex: "\<exists>j. eligible st i catA j \<and> distanceFrom st peakA j \<le> R"
      using found(3,4,5) by blast
    have "eligible st i catA j \<and>
          partner (pairStates (linkPair rnd i j st) ! i) = int j \<and>
          partner (pairStates (linkPair rnd i j st) ! j) = int i \<and>
          distanceFrom st peakA j \<le> R \<and>
          (\<forall>k. eligible st i catA k \<longrightarrow> distanceFrom st peakA j \<le> distanceFrom st peakA k) \<and>
          nearby = xs @ j # ys \<and>
          (\<forall>k \<in> set ys. eligible st i catA k \<longrightarrow> distanceFrom st peakA j < distanceFrom st peakA k)"
      using found low linkPair_partner [OF ii ji(2)] ji(1) by simp
    then show ?thesis
      using ex unfolding st' R_def peakA_def nearby_def by (simp only: option.inject if_True simp_thms) blast
  qed
qed

subsection \<open>Evaluating the scenes\<close>

lemma sqrt_100 [simp]: "sqrt 100 = 10"
  using real_sqrt_abs [of 10] by simp

lemma ceiling_half [simp]: "\<lceil>1 / 2 :: real\<rceil> = 1"
  by (simp add: ceiling_eq_iff)

lemma upto_m1_1 [simp]: "[- 1..1::int] = [- 1, 0, 1]"
  by (simp add: upto_rec1)

lemma rebuildGrid_fields [simp]:
  "peaks (rebuildGrid st) = peaks st"
  "pairStates (rebuildGrid st) = pairStates st"
  "peakSolids (rebuildGrid st) = peakSolids st"
  "motionSystem (rebuildGrid st) = motionSystem st"
  "cellSize (spatialGrid (rebuildGrid st)) = cellSize (spatialGrid st)"
  by (simp_all add: rebuildGrid_def SpatialGrid_clear_def)

theorem formationStep_closest_witness:
  "spatialGrid lowMidState = spatialGrid (rebuildGrid lowMidState) \<and>
   0 < cellSize (spatialGrid lowMidState) \<and>
   length (peaks lowMidState) \<le> length (pairStates lowMidState) \<and>
   0 < length (peaks lowMidState) \<and>
   partner (pairStates lowMidState ! 0) = - 1 \<and> \<not> cooldown (pairStates lowMidState ! 0) > 0 \<and>
   categoryOf (peakSolids lowMidState) 0 = Some ''low'' \<and>
   eligible lowMidState 0 ''low'' 1 \<and>
   distanceFrom lowMidState (peaks lowMidState ! 0) 1 \<le> pairFormRadius (motionSystem lowMidState) \<and>
   (\<exists>st' b. formationStep (\<lambda>_. 0) 0 lowMidState = Some st' \<and> eligible lowMidState 0 ''low'' b \<and>
      partner (pairStates st' ! 0) = int b \<and> partner (pairStates st' ! b) = int 0)"
proof -
  have g: "spatialGrid lowMidState = spatialGrid (rebuildGrid lowMidState)"
    by (simp add: lowMidState_def rebuildGrid_idem)
  have c: "0 < cellSize (spatialGrid lowMidState)"
    by (simp add: lowMidState_def engineWith_def)
  have l: "length (peaks lowMidState) \<le> length (pairStates lowMidState)"
    "0 < length (peaks lowMidState)"
    by (simp_all add: lowMidState_def engineWith_def)
  have f: "partner (pairStates lowMidState ! 0) = - 1"
    "\<not> cooldown (pairStates lowMidState ! 0) > 0"
    by (simp_all add: lowMidState_def engineWith_def newPairState_def)
  have k: "categoryOf (peakSolids lowMidState) 0 = Some ''low''" "''low'' \<noteq> []"
    by (simp_all add: lowMidState_def engineWith_def categoryOf_def solidOf_def arrayGet_def)
  have e: "eligible lowMidState 0 ''low'' 1"
    by (simp add: eligible_def lowMidState_def engineWith_def newPairState_def categoryOf_def
        solidOf_def complementaryPair_def complementary_map_def arrayGet_def)
  have d: "distanceFrom lowMidState (peaks lowMidState ! 0) 1
             \<le> pairFormRadius (motionSystem lowMidState)"
    by (simp add: distanceFrom_def lowMidState_def engineWith_def peakAt_def distanceTo_def
        vlength_def lengthSq_def subVectors_def Vec_def defaultMotion_def)
  from e d have ex: "\<exists>j. eligible lowMidState 0 ''low'' j \<and>
      distanceFrom lowMidState (peaks lowMidState ! 0) j \<le> pairFormRadius (motionSystem lowMidState)"
    by blast
  from formationStep_closest [OF g c l f k, of "\<lambda>_. 0"] ex
  have "\<exists>st' b. formationStep (\<lambda>_. 0) 0 lowMidState = Some st' \<and> eligible lowMidState 0 ''low'' b \<and>
      partner (pairStates st' ! 0) = int b \<and> partner (pairStates st' ! b) = int 0"
    by (simp only: if_True) blast
  with g c l f k(1) e d show ?thesis by (intro conjI)
qed

text \<open>
  C4 as stated fails on ties. Agent 0 ("mid", at the origin) has the two eligible
  candidates 1 and 2 ("low"), both at distance 10 and both in its grid cell, listed in
  the order 1, 2. The claim links agent 0 to the candidate met first, agent 1; the
  pairing pass links it to agent 2 and leaves agent 1 unpaired.
\<close>

theorem formation_tie_counterexample:
  "map_option (\<lambda>st. map partner (pairStates st)) (findPairs (\<lambda>_. 0) tieState)
     = Some [2, - 1, 0]"
  by (simp add: tieState_def engineWith_def findPairs_def rebuildGrid_def insertAll_def SpatialGrid_insert_def
      SpatialGrid_hash_def SpatialGrid_clear_def SpatialGrid_getNearby_def cellAt_def Vec_def
      peakAt_def Let_def decayPairState_def newPairState_def breakCheck_def breakCheckStep_def
      formationStep_def candidateStep_def categoryOf_def solidOf_def complementaryPair_def 
      complementary_map_def distanceTo_def vlength_def lengthSq_def subVectors_def defaultMotion_def
      linkPair_def modify_def arraySet_def arrayGet_def)

subsection \<open>Construction\<close>



subsection \<open>Vector lengths and the velocity limit\<close>

lemma vlength_nonneg [simp]: "0 \<le> vlength v"
  by (simp add: vlength_def)

lemma vlength_multiplyScalar: "vlength (multiplyScalar v s) = \<bar>s\<bar> * vlength v"
proof -
  have "lengthSq (multiplyScalar v s) = s\<^sup>2 * lengthSq v"
    by (simp add: lengthSq_def multiplyScalar_def Vec_def power2_eq_square algebra_simps)
  then show ?thesis
    by (simp add: vlength_def real_sqrt_mult)
qed

lemma vlength_normalize: "vlength v \<noteq> 0 \<Longrightarrow> vlength (normalize v) = 1"
  by (simp add: normalize_def divideScalar_def vlength_multiplyScalar)

lemma normalize_zero: "vlength v = 0 \<Longrightarrow> normalize v = multiplyScalar v 1"
  by (simp add: normalize_def divideScalar_def)

lemma vlength_setLength: "vlength v \<noteq> 0 \<Longrightarrow> vlength (setLength v l) = \<bar>l\<bar>"
  by (simp add: setLength_def vlength_multiplyScalar vlength_normalize)

lemma limitVelocity_bound:
  assumes "0 \<le> maxVelocity M"
  shows "vlength (limitVelocity M v) \<le> maxVelocity M"
proof (cases "vlength v > maxVelocity M")
  case True
  then have "vlength v \<noteq> 0" using assms by linarith
  then show ?thesis using True assms by (simp add: limitVelocity_def vlength_setLength)
next
  case False
  then show ?thesis by (simp add: limitVelocity_def)
qed

lemma randomDirection_half: "rnd k = 1 / 2 \<Longrightarrow> rnd (Suc k) = 1 / 2 \<Longrightarrow> randomDirection rnd k = zeroVec"
  by (simp add: randomDirection_def normalize_def divideScalar_def multiplyScalar_def Vec_def
      zeroVec_def vlength_def lengthSq_def)

lemma addScaledVector_zero [simp]: "addScaledVector f zeroVec s = f"
  by (simp add: addScaledVector_def zeroVec_def Vec_def)

text \<open>
  C9, at the input where it fails. For an agent exactly at the origin (\<open>radial\<close> and
  \<open>radialLen\<close> are zero) with \<open>avoidCenterRadius = 50\<close>, the center avoidance adds
  \<open>avoidCenterStrength\<close> times the normalised vector of two random draws minus 0.5.
  When both draws are 0.5 that vector is the zero vector, which \<open>normalize()\<close> leaves
  as it is: the force offset comes back unchanged, so the component is zero.
\<close>

theorem centerAvoidance_origin_zero:
  "centerAvoidance defaultMotion (\<lambda>_. 1 / 2) k (setY zeroVec 0) (vlength (setY zeroVec 0)) f
     = (f, k + 2)"
proof -
  have "vlength (setY zeroVec 0) = 0"
    by (simp add: setY_def zeroVec_def Vec_def vlength_def lengthSq_def)
  then show ?thesis
    by (simp add: centerAvoidance_def defaultMotion_def randomDirection_half)
qed

lemma vlength_randomDirection:
  assumes "rnd k \<noteq> 1 / 2 \<or> rnd (Suc k) \<noteq> 1 / 2"
  shows "vlength (randomDirection rnd k) = 1"
proof -
  have "lengthSq (Vec (rnd k - 0.5) 0 (rnd (Suc k) - 0.5)) \<noteq> 0"
    using assms by (auto simp: lengthSq_def Vec_def add_nonneg_eq_0_iff)
  then have "vlength (Vec (rnd k - 0.5) 0 (rnd (Suc k) - 0.5)) \<noteq> 0"
    by (simp add: vlength_def)
  then show ?thesis unfolding randomDirection_def by (rule vlength_normalize)
qed

subsection \<open>What the pairing and force passes leave alone\<close>

lemma sameWorld_refl [simp]: "sameWorld a a"
  by (simp add: sameWorld_def)

lemma sameWorld_trans: "sameWorld a b \<Longrightarrow> sameWorld b c \<Longrightarrow> sameWorld a c"
  by (simp add: sameWorld_def)

lemma sameWorld_updates [simp]:
  "sameWorld a (b\<lparr>pairStates := ps\<rparr>) = sameWorld a b"
  "sameWorld a (b\<lparr>pairDirections := ds\<rparr>) = sameWorld a b"
  "sameWorld a (b\<lparr>rng := k\<rparr>) = sameWorld a b"
  "sameWorld a (b\<lparr>spatialGrid := g\<rparr>) = sameWorld a b"
  by (simp_all add: sameWorld_def)

lemma forEach_append:
  "forEach body (xs @ ys) s =
     (case forEach body xs s of None \<Rightarrow> None | Some s' \<Rightarrow> forEach body ys s')"
  by (induction xs arbitrary: s) (auto split: option.splits)

lemma forEach_invariant:
  assumes "forEach body xs s = Some s'" and "P s"
    and "\<And>x t t'. x \<in> set xs \<Longrightarrow> P t \<Longrightarrow> body x t = Some t' \<Longrightarrow> P t'"
  shows "P s'"
  using assms
proof (induction xs arbitrary: s)
  case Nil
  then show ?case by simp
next
  case (Cons x xs)
  from Cons.prems(1) obtain t where t: "body x s = Some t" "forEach body xs t = Some s'"
    by (auto split: option.splits)
  have "P t" using Cons.prems(3) [of x s t] Cons.prems(2) t(1) by simp
  show ?case
    by (rule Cons.IH [OF t(2) \<open>P t\<close>]) (use Cons.prems(3) in auto)
qed

lemma forEach_total:
  assumes "P s"
    and "\<And>x t. x \<in> set xs \<Longrightarrow> P t \<Longrightarrow> \<exists>t'. body x t = Some t' \<and> P t'"
  shows "\<exists>s'. forEach body xs s = Some s' \<and> P s'"
  using assms
proof (induction xs arbitrary: s)
  case Nil
  then show ?case by simp
next
  case (Cons x xs)
  from Cons.prems(2) [of x s] Cons.prems(1) obtain t where t: "body x s = Some t" "P t"
    by auto
  from Cons.IH [OF t(2)] Cons.prems(2) obtain s' where "forEach body xs t = Some s'" "P s'"
    by auto
  with t show ?case by simp
qed

lemma sameWorld_rebuildGrid [simp]: "sameWorld a (rebuildGrid b) = sameWorld a b"
  by (simp add: rebuildGrid_def)

lemma sameWorld_linkPair [simp]: "sameWorld a (linkPair rnd i b st) = sameWorld a st"
  by (simp add: linkPair_def Let_def split: option.splits)

lemma sameWorld_formationStep:
  "formationStep rnd i st = Some st' \<Longrightarrow> sameWorld a st' = sameWorld a st"
  by (auto simp: formationStep_def split: option.splits if_splits)

lemma sameWorld_findPairs:
  assumes "findPairs rnd st = Some st'"
  shows "sameWorld st st'"
proof -
  define st3 where "st3 = (rebuildGrid (st\<lparr>pairStates := map decayPairState (pairStates st)\<rparr>))
     \<lparr>pairStates := breakCheck (motionSystem st) (peaks st) (map decayPairState (pairStates st))\<rparr>"
  have run: "forEach (formationStep rnd) [0..<length (peaks st)] st3 = Some st'"
    using assms by (simp add: findPairs_def Let_def st3_def)
  have "sameWorld st st3" by (simp add: st3_def)
  from forEach_invariant [OF run, of "sameWorld st", OF this] show ?thesis
    by (simp add: sameWorld_formationStep)
qed

lemma sameWorld_pushDirection [simp]: "sameWorld a (pushDirection rnd st) = sameWorld a st"
  by (simp add: pushDirection_def)

lemma fold_growDirections_world:
  "sameWorld a (fold (\<lambda>_. pushDirection rnd) ks st) = sameWorld a st"
  by (induction ks arbitrary: st) simp_all

lemma sameWorld_growPairDirections [simp]:
  "sameWorld a (growPairDirections rnd st) = sameWorld a st"
  by (simp add: growPairDirections_def fold_growDirections_world)

lemma sameWorld_pairedForces:
  "pairedForces rnd i peak pk st f = Some (st', f') \<Longrightarrow> sameWorld a st' = sameWorld a st"
  by (auto simp: pairedForces_def Let_def split: option.splits if_splits)

lemma sameWorld_soloForces:
  "soloForces rnd i st f = (st', f') \<Longrightarrow> sameWorld a st' = sameWorld a st"
  by (auto simp: soloForces_def Let_def)

lemma sameWorld_applyPairingForces:
  "applyPairingForces rnd i st f = Some (st', f') \<Longrightarrow> sameWorld a st' = sameWorld a st"
  by (auto simp: applyPairingForces_def Let_def
           split: option.splits if_splits
           dest!: sameWorld_pairedForces [where a = a] sameWorld_soloForces [where a = a])

lemma sameWorld_applyExplorationForces:
  "applyExplorationForces rnd i st f t = Some (st', f') \<Longrightarrow> sameWorld a st' = sameWorld a st"
  by (auto simp: applyExplorationForces_def Let_def split: option.splits prod.splits)

lemma sameWorld_accumulateForces:
  assumes "accumulateForces rnd i st = Some (st', f')"
  shows "sameWorld a st' = sameWorld a st"
  using assms
  by (auto simp: accumulateForces_def Let_def clearBreakFlag_def
           split: option.splits if_splits prod.splits
           dest!: sameWorld_applyPairingForces [where a = a]
                  sameWorld_applyExplorationForces [where a = a])

subsection \<open>The step of one agent\<close>

lemma stepFrame_sameWorld: "sameWorld a b \<Longrightarrow> stepFrame j a b"
  by (simp add: sameWorld_def stepFrame_def)

lemma stepFrame_integrate:
  "stepFrame j st (integrate j peak baseTarget f st)"
  by (auto simp: stepFrame_def integrate_def Let_def nth_append)

lemma stepFrame_softLock: "stepFrame j st (softLock j peak target st)"
  by (auto simp: stepFrame_def softLock_def Let_def)

lemma stepFrame_trans: "stepFrame j a b \<Longrightarrow> stepFrame j b c \<Longrightarrow> stepFrame j a c"
  by (auto simp: stepFrame_def)

lemma stepFrame_movePeak:
  assumes "movePeak rnd swarm j st = Some st'"
  shows "stepFrame j st st'"
proof (cases "\<exists>st1 f. accumulateForces rnd j st = Some (st1, f) \<and>
                 (\<exists>peak bt. st' = integrate j peak bt f st1)")
  case True
  then obtain st1 f peak bt where
    acc: "accumulateForces rnd j st = Some (st1, f)" and st': "st' = integrate j peak bt f st1"
    by blast
  have "sameWorld st st1"
    using sameWorld_accumulateForces [OF acc, of st] by simp
  from stepFrame_trans [OF stepFrame_sameWorld [OF this] stepFrame_integrate] show ?thesis
    by (simp add: st')
next
  case False
  with assms have "st' = st \<or> (\<exists>peak target. st' = softLock j peak target st)"
    by (auto simp: movePeak_def split: option.splits if_splits)
  then show ?thesis
    by (auto simp: stepFrame_softLock stepFrame_sameWorld)
qed

lemma integrate_velocity_bound:
  assumes "0 \<le> maxVelocity (motionSystem st)"
  shows "i < length (velocities (integrate i peak bt f st)) \<and>
         vlength (velocities (integrate i peak bt f st) ! i) \<le> maxVelocity (motionSystem st)"
  using assms by (simp add: integrate_def Let_def limitVelocity_bound)

lemma movePeak_integrated:
  assumes "movePeak rnd swarm i st = Some st'" "i < length (peaks st)"
    "integrated st (peaks st ! i)"
  shows "\<exists>st1 f bt. accumulateForces rnd i st = Some (st1, f) \<and>
           st' = integrate i (peaks st ! i) bt f st1"
  using assms
  by (auto simp: movePeak_def integrated_def skipped_def split: option.splits if_splits)

lemma movePeak_velocity_bound:
  assumes "0 \<le> maxVelocity (motionSystem st)"
    and "movePeak rnd swarm i st = Some st'" and "i < length (peaks st)"
    and "integrated st (peaks st ! i)"
  shows "i < length (velocities st') \<and> vlength (velocities st' ! i) \<le> maxVelocity (motionSystem st')"
proof -
  from movePeak_integrated [OF assms(2-4)] obtain st1 f bt where
    acc: "accumulateForces rnd i st = Some (st1, f)" and
    st': "st' = integrate i (peaks st ! i) bt f st1"
    by blast
  have w: "sameWorld st st1" using sameWorld_accumulateForces [OF acc, of st] by simp
  then have m: "motionSystem st1 = motionSystem st" by (simp add: sameWorld_def)
  have "motionSystem st' = motionSystem st1" by (simp add: st' integrate_def Let_def)
  with integrate_velocity_bound [of st1 i "peaks st ! i" bt f] assms(1) m show ?thesis
    by (simp add: st')
qed

subsection \<open>The velocity after a tick\<close>

lemma resizeAuxiliary_world [simp]:
  "peaks (resizeAuxiliary st) = peaks st"
  "motionSystem (resizeAuxiliary st) = motionSystem st"
  "categoryFilterActive (resizeAuxiliary st) = categoryFilterActive st"
  "stopAllMovement (resizeAuxiliary st) = stopAllMovement st"
  "evolvingActive (resizeAuxiliary st) = evolvingActive st"
  "pairDirections (resizeAuxiliary st) = pairDirections st"
  "time (resizeAuxiliary st) = time st"
  "peakSolids (resizeAuxiliary st) = peakSolids st"
  by (simp_all add: resizeAuxiliary_def)

lemma recordLastPositions_fields [simp]:
  "velocities (recordLastPositions st) = velocities st"
  "motionSystem (recordLastPositions st) = motionSystem st"
  "peaks (recordLastPositions st) = peaks st"
  "pairStates (recordLastPositions st) = pairStates st"
  "pairDirections (recordLastPositions st) = pairDirections st"
  by (simp_all add: recordLastPositions_def)

lemma integrated_cong:
  "categoryFilterActive b = categoryFilterActive a \<Longrightarrow> stopAllMovement b = stopAllMovement a \<Longrightarrow>
   evolvingActive b = evolvingActive a \<Longrightarrow> integrated b p = integrated a p"
  by (simp add: integrated_def skipped_def)

lemma upt_split_at: "i < n \<Longrightarrow> [0..<n] = [0..<i] @ i # [Suc i..<n]"
  using upt_add_eq_append [of 0 i "n - i"] upt_conv_Cons [of i n] by simp

lemma tick_velocity_bound_aux:
  assumes mv: "0 \<le> maxVelocity (motionSystem st)"
    and run: "tick rnd st = Some st'"
    and i: "i < length (peaks st)"
    and moved: "integrated st (peaks st ! i)"
  shows "vlength (velocities st' ! i) \<le> maxVelocity (motionSystem st')"
proof -
  define st1 where "st1 = resizeAuxiliary st"
  define sw where "sw = swarmTargets st1"
  from run obtain st2 st3 where
    fp: "findPairs rnd st1 = Some st2" and
    loop: "forEach (movePeak rnd sw) [0..<length (peaks st2)] st2 = Some st3" and
    st': "st' = recordLastPositions st3"
    by (auto simp: tick_def Let_def st1_def sw_def split: option.splits)
  have w: "sameWorld st1 st2" by (rule sameWorld_findPairs [OF fp])
  define P where "P s \<longleftrightarrow> motionSystem s = motionSystem st \<and>
      categoryFilterActive s = categoryFilterActive st \<and> stopAllMovement s = stopAllMovement st \<and>
      evolvingActive s = evolvingActive st \<and> length (peaks s) = length (peaks st) \<and>
      peaks s ! i = peaks st ! i" for s :: engine
  have P2: "P st2"
    using w by (simp add: P_def sameWorld_def st1_def)
  have n: "length (peaks st2) = length (peaks st)" using P2 by (simp add: P_def)
  from loop obtain sa sb where
    pre: "forEach (movePeak rnd sw) [0..<i] st2 = Some sa" and
    mid: "movePeak rnd sw i sa = Some sb" and
    suf: "forEach (movePeak rnd sw) [Suc i..<length (peaks st)] sb = Some st3"
    unfolding n upt_split_at [OF i] by (auto simp: forEach_append split: option.splits)
  have Pa: "P sa"
  proof (rule forEach_invariant [OF pre, of P, OF P2])
    fix j t t' assume j: "j \<in> set [0..<i]" and t: "P t" "movePeak rnd sw j t = Some t'"
    from stepFrame_movePeak [OF t(2)] j t(1) show "P t'"
      by (auto simp: stepFrame_def P_def)
  qed
  have ia: "i < length (peaks sa)" using Pa i by (simp add: P_def)
  have ma: "integrated sa (peaks sa ! i)"
    using Pa moved integrated_cong [of sa st] by (simp add: P_def)
  have mva: "0 \<le> maxVelocity (motionSystem sa)" using Pa mv by (simp add: P_def)
  from movePeak_velocity_bound [OF mva mid ia ma]
  have b: "i < length (velocities sb)" "vlength (velocities sb ! i) \<le> maxVelocity (motionSystem sb)"
    by simp_all
  define Q where "Q s \<longleftrightarrow> i < length (velocities s) \<and> velocities s ! i = velocities sb ! i \<and>
      motionSystem s = motionSystem sb" for s :: engine
  have "Q st3"
  proof (rule forEach_invariant [OF suf, of Q])
    show "Q sb" using b by (simp add: Q_def)
  next
    fix j t t' assume j: "j \<in> set [Suc i..<length (peaks st)]"
      and t: "Q t" "movePeak rnd sw j t = Some t'"
    from stepFrame_movePeak [OF t(2)] j t(1) show "Q t'"
      by (auto simp: stepFrame_def Q_def)
  qed
  with b show ?thesis by (simp add: st' Q_def)
qed

subsection \<open>Mutual links and present headings\<close>

lemma headingsKept_refl [simp]: "headingsKept ds ds"
  by (simp add: headingsKept_def)

lemma headingsKept_trans: "headingsKept a b \<Longrightarrow> headingsKept b c \<Longrightarrow> headingsKept a c"
  unfolding headingsKept_def by blast

lemma headingsKept_append [simp]: "headingsKept ds (ds @ es)"
  by (auto simp: headingsKept_def arrayGet_def nth_append)

lemma headingsKept_update [simp]: "headingsKept ds (ds[k := Some h])"
proof -
  have "\<exists>h'. ds[k := Some h] ! n = Some h'" if "n < length ds" "ds ! n = Some v" for n v
    using that by (cases "n = k") simp_all
  then show ?thesis
    by (auto simp: headingsKept_def arrayGet_def nat_less_iff)
qed

lemma headingsKept_arraySet [simp]: "headingsKept ds (arraySet ds k h)"
proof (cases "k < length ds")
  case True
  then show ?thesis by (simp add: arraySet_def)
next
  case False
  then show ?thesis by (simp add: arraySet_def)
qed

lemma partnersKept_refl [simp]: "partnersKept ps ps"
  by (simp add: partnersKept_def)

lemma partnersKept_trans: "partnersKept a b \<Longrightarrow> partnersKept b c \<Longrightarrow> partnersKept a c"
  unfolding partnersKept_def by (metis (no_types, lifting))

lemma headingsPresent_kept:
  assumes "headingsPresent st" "headingsKept (pairDirections st) (pairDirections st')"
    "partnersKept (pairStates st) (pairStates st')"
  shows "headingsPresent st'"
  unfolding headingsPresent_def
proof (intro allI impI)
  fix i assume i: "i < length (pairStates st')" and p: "partner (pairStates st' ! i) \<noteq> - 1"
  from assms(3) i p have same: "partner (pairStates st' ! i) = partner (pairStates st ! i)"
    and i': "i < length (pairStates st)"
    by (auto simp: partnersKept_def)
  from assms(1) i' p same obtain h where
    "arrayGet (pairDirections st) (min (int i) (partner (pairStates st ! i))) = Some (Some h)"
    by (auto simp: headingsPresent_def)
  with assms(2) show "\<exists>h. arrayGet (pairDirections st')
       (min (int i) (partner (pairStates st' ! i))) = Some (Some h)"
    unfolding headingsKept_def same by blast
qed

text \<open>Clearing both ends of a mutual link keeps the links mutual.\<close>

lemma unpair_symmetric:
  assumes sym: "pairSymmetric ps" and k: "k < length ps"
    and pk: "partner (ps ! k) = int p" and len: "length ps' = length ps"
    and upd: "\<forall>m < length ps. partner (ps' ! m) = (if m = k \<or> m = p then - 1 else partner (ps ! m))"
  shows "pairSymmetric ps'"
  unfolding pairSymmetric_def
proof (intro allI impI)
  fix m assume m: "m < length ps'" and pm: "partner (ps' ! m) \<noteq> - 1"
  from m len have m': "m < length ps" by simp
  have p: "p < length ps" "partner (ps ! p) = int k"
    using sym k pk unfolding pairSymmetric_def by force+
  have mk: "m \<noteq> k" "m \<noteq> p" and same: "partner (ps' ! m) = partner (ps ! m)"
    using pm upd m' by (auto split: if_splits)
  define q where "q = nat (partner (ps ! m))"
  have q: "0 \<le> partner (ps ! m)" "q < length ps" "partner (ps ! q) = int m"
    using sym m' pm same unfolding pairSymmetric_def q_def by auto
  have "q \<noteq> k" using q(3) pk mk by auto
  moreover have "q \<noteq> p" using q(3) p(2) mk by auto
  ultimately have "partner (ps' ! q) = partner (ps ! q)" using upd q(2) by simp
  then show "0 \<le> partner (ps' ! m) \<and> nat (partner (ps' ! m)) < length ps' \<and>
             partner (ps' ! nat (partner (ps' ! m))) = int m"
    using q same len by (simp add: q_def)
qed

text \<open>Linking two unpaired, distinct agents keeps the links mutual.\<close>

lemma pair_symmetric:
  assumes sym: "pairSymmetric ps" and i: "i < length ps" and b: "b < length ps" and ib: "i \<noteq> b"
    and free: "partner (ps ! i) = - 1" "partner (ps ! b) = - 1"
    and len: "length ps' = length ps"
    and upd: "\<forall>m < length ps. partner (ps' ! m) =
                (if m = i then int b else if m = b then int i else partner (ps ! m))"
  shows "pairSymmetric ps'"
  unfolding pairSymmetric_def
proof (intro allI impI)
  fix m assume m: "m < length ps'" and pm: "partner (ps' ! m) \<noteq> - 1"
  from m len have m': "m < length ps" by simp
  consider (i) "m = i" | (b) "m = b" "m \<noteq> i" | (other) "m \<noteq> i" "m \<noteq> b" by blast
  then show "0 \<le> partner (ps' ! m) \<and> nat (partner (ps' ! m)) < length ps' \<and>
             partner (ps' ! nat (partner (ps' ! m))) = int m"
  proof cases
    case i
    then show ?thesis using upd m' b ib len by simp
  next
    case b
    then show ?thesis using upd m' i ib len by simp
  next
    case other
    then have same: "partner (ps' ! m) = partner (ps ! m)" using upd m' by simp
    define q where "q = nat (partner (ps ! m))"
    have q: "0 \<le> partner (ps ! m)" "q < length ps" "partner (ps ! q) = int m"
      using sym m' pm same unfolding pairSymmetric_def q_def by auto
    have "q \<noteq> i" "q \<noteq> b" using q(3) free by auto
    then have "partner (ps' ! q) = partner (ps ! q)" using upd q(2) by simp
    then show ?thesis using q same len by (simp add: q_def)
  qed
qed

subsection \<open>The invariant before the formation loop\<close>

lemma pairSymmetric_append_new:
  assumes "pairSymmetric ps"
  shows "pairSymmetric (ps @ replicate n newPairState)"
  unfolding pairSymmetric_def
proof (intro allI impI)
  fix i assume i: "i < length (ps @ replicate n newPairState)"
    and p: "partner ((ps @ replicate n newPairState) ! i) \<noteq> - 1"
  have i': "i < length ps"
    using i p by (cases "i < length ps") (auto simp: nth_append newPairState_def)
  with p have p': "partner (ps ! i) \<noteq> - 1" by (simp add: nth_append)
  from assms i' p' have "0 \<le> partner (ps ! i)" "nat (partner (ps ! i)) < length ps"
    "partner (ps ! nat (partner (ps ! i))) = int i"
    unfolding pairSymmetric_def by auto
  then show "0 \<le> partner ((ps @ replicate n newPairState) ! i) \<and>
      nat (partner ((ps @ replicate n newPairState) ! i)) < length (ps @ replicate n newPairState) \<and>
      partner ((ps @ replicate n newPairState) ! nat (partner ((ps @ replicate n newPairState) ! i))) = int i"
    using i' by (simp add: nth_append)
qed

lemma wellPaired_resizeAuxiliary:
  assumes "wellPaired st"
  shows "wellPaired (resizeAuxiliary st)"
    and "length (peaks (resizeAuxiliary st)) \<le> length (pairStates (resizeAuxiliary st))"
proof -
  have hp: "headingsPresent (resizeAuxiliary st)"
    unfolding headingsPresent_def
  proof (intro allI impI)
    fix i assume i: "i < length (pairStates (resizeAuxiliary st))"
      and p: "partner (pairStates (resizeAuxiliary st) ! i) \<noteq> - 1"
    have i': "i < length (pairStates st)"
      using i p by (cases "i < length (pairStates st)")
        (auto simp: resizeAuxiliary_def growTo_def nth_append newPairState_def)
    then have "pairStates (resizeAuxiliary st) ! i = pairStates st ! i"
      by (simp add: resizeAuxiliary_def growTo_def nth_append)
    with assms i' p show "\<exists>h. arrayGet (pairDirections (resizeAuxiliary st))
        (min (int i) (partner (pairStates (resizeAuxiliary st) ! i))) = Some (Some h)"
      by (simp add: wellPaired_def headingsPresent_def)
  qed
  have "pairSymmetric (pairStates (resizeAuxiliary st))"
    using assms pairSymmetric_append_new
    by (simp add: wellPaired_def resizeAuxiliary_def growTo_def)
  with hp show "wellPaired (resizeAuxiliary st)" by (simp add: wellPaired_def)
  show "length (peaks (resizeAuxiliary st)) \<le> length (pairStates (resizeAuxiliary st))"
    by (simp add: resizeAuxiliary_def growTo_def)
qed

lemma partner_decay [simp]: "partner (decayPairState s) = partner s"
  by (simp add: decayPairState_def Let_def)

lemma pairSymmetric_decay:
  "pairSymmetric ps \<Longrightarrow> pairSymmetric (map decayPairState ps)"
  by (simp add: pairSymmetric_def)

lemma partnersKept_decay: "partnersKept ps (map decayPairState ps)"
  by (simp add: partnersKept_def)

lemma partnersKept_breakCheckStep:
  assumes "k < length ps"
  shows "partnersKept ps (breakCheckStep M pks k ps)"
proof (cases "breaks M pks k ps")
  case True
  then show ?thesis
    using assms by (simp add: partnersKept_def breakCheckStep_partner)
next
  case False
  then show ?thesis by (simp add: breakCheckStep_idle)
qed

lemma partnersKept_fold_breakCheckStep:
  "\<forall>k \<in> set ks. k < length ps \<Longrightarrow> partnersKept ps (fold (breakCheckStep M pks) ks ps)"
proof (induction ks arbitrary: ps)
  case Nil
  then show ?case by simp
next
  case (Cons k ks)
  have 1: "partnersKept ps (breakCheckStep M pks k ps)"
    using Cons.prems by (simp add: partnersKept_breakCheckStep)
  have "partnersKept (breakCheckStep M pks k ps)
          (fold (breakCheckStep M pks) ks (breakCheckStep M pks k ps))"
    using Cons.prems by (intro Cons.IH) simp
  from partnersKept_trans [OF 1 this] show ?case by simp
qed

lemma partnersKept_breakCheck: "partnersKept ps (breakCheck M pks ps)"
  by (simp add: breakCheck_def partnersKept_fold_breakCheckStep)

lemma pairSymmetric_breakCheck: "pairSymmetric ps \<Longrightarrow> pairSymmetric (breakCheck M pks ps)"
  by (simp add: breakCheck_def fold_breakCheckStep_symmetric)

lemma findPairs_eq:
  "findPairs rnd st = forEach (formationStep rnd) [0..<length (peaks st)] (beforeFormation st)"
  by (simp add: findPairs_def Let_def beforeFormation_def)

lemma beforeFormation_fields [simp]:
  "peaks (beforeFormation st) = peaks st"
  "pairDirections (beforeFormation st) = pairDirections st"
  "length (pairStates (beforeFormation st)) = length (pairStates st)"
  "spatialGrid (beforeFormation st) = spatialGrid (rebuildGrid st)"
  "peakSolids (beforeFormation st) = peakSolids st"
  "motionSystem (beforeFormation st) = motionSystem st"
  by (simp_all add: beforeFormation_def breakCheck_def rebuildGrid_def)

lemma wellPaired_beforeFormation:
  assumes "wellPaired st"
  shows "wellPaired (beforeFormation st)"
proof -
  have k: "partnersKept (pairStates st) (pairStates (beforeFormation st))"
    unfolding beforeFormation_def
    using partnersKept_trans [OF partnersKept_decay partnersKept_breakCheck] by simp
  have "pairSymmetric (pairStates (beforeFormation st))"
    using assms by (simp add: beforeFormation_def wellPaired_def pairSymmetric_breakCheck
        pairSymmetric_decay)
  moreover have "headingsPresent (beforeFormation st)"
    using assms k by (rule_tac headingsPresent_kept [of st]) (simp_all add: wellPaired_def)
  ultimately show ?thesis by (simp add: wellPaired_def)
qed

subsection \<open>The invariant through the formation loop\<close>

lemma gridCurrent_cong:
  "spatialGrid b = spatialGrid a \<Longrightarrow> peaks b = peaks a \<Longrightarrow> gridCurrent b = gridCurrent a"
  by (simp add: gridCurrent_def rebuildGrid_def)

lemma gridCurrent_beforeFormation [simp]: "gridCurrent (beforeFormation st)"
  by (simp add: gridCurrent_def rebuildGrid_def)

lemma linkPair_fields [simp]:
  "peaks (linkPair rnd i b st) = peaks st"
  "spatialGrid (linkPair rnd i b st) = spatialGrid st"
  "length (pairStates (linkPair rnd i b st)) = length (pairStates st)"
  by (simp_all add: linkPair_def Let_def split: option.splits)

lemma linkPair_partners:
  assumes "i < length (pairStates st)" "b < length (pairStates st)" "i \<noteq> b" "m < length (pairStates st)"
  shows "partner (pairStates (linkPair rnd i b st) ! m) =
           (if m = i then int b else if m = b then int i else partner (pairStates st ! m))"
  using assms by (auto simp: linkPair_def Let_def nth_modify split: option.splits)

lemma arrayGet_arraySet_same: "arrayGet (arraySet ds k v) (int k) = Some (Some v)"
  by (simp add: arraySet_def nth_append)

lemma linkPair_heading:
  "\<exists>h. arrayGet (pairDirections (linkPair rnd i b st)) (int (min i b)) = Some (Some h)"
proof (cases "\<exists>d. arrayGet (pairDirections st) (int (min i b)) = Some (Some d)")
  case True
  then obtain d where d: "arrayGet (pairDirections st) (int (min i b)) = Some (Some d)" ..
  then have "pairDirections (linkPair rnd i b st) = pairDirections st"
    by (simp add: linkPair_def Let_def)
  with d show ?thesis by simp
next
  case False
  then have "pairDirections (linkPair rnd i b st)
               = arraySet (pairDirections st) (min i b) (randomDirection rnd (rng st))"
    by (auto simp: linkPair_def Let_def split: option.splits)
  then show ?thesis using arrayGet_arraySet_same by metis
qed

lemma linkPair_headingsKept:
  "headingsKept (pairDirections st) (pairDirections (linkPair rnd i b st))"
  by (auto simp: linkPair_def Let_def split: option.splits)

lemma wellPaired_linkPair:
  assumes wp: "wellPaired st" and i: "i < length (pairStates st)" and b: "b < length (pairStates st)"
    and ib: "i \<noteq> b"
    and free: "partner (pairStates st ! i) = - 1" "partner (pairStates st ! b) = - 1"
  shows "wellPaired (linkPair rnd i b st)"
proof -
  let ?st' = "linkPair rnd i b st"
  have upd: "\<forall>m < length (pairStates st). partner (pairStates ?st' ! m) =
               (if m = i then int b else if m = b then int i else partner (pairStates st ! m))"
    using linkPair_partners [OF i b ib] by blast
  have sym: "pairSymmetric (pairStates ?st')"
    by (rule pair_symmetric [OF _ i b ib free _ upd]) (use wp in \<open>simp_all add: wellPaired_def\<close>)
  have "headingsPresent ?st'"
    unfolding headingsPresent_def
  proof (intro allI impI)
    fix m assume m: "m < length (pairStates ?st')" and p: "partner (pairStates ?st' ! m) \<noteq> - 1"
    from m have m': "m < length (pairStates st)" by simp
    consider (i) "m = i" | (b) "m = b" "m \<noteq> i" | (other) "m \<noteq> i" "m \<noteq> b" by blast
    then show "\<exists>h. arrayGet (pairDirections ?st') (min (int m) (partner (pairStates ?st' ! m)))
                  = Some (Some h)"
    proof cases
      case i
      then have "min (int m) (partner (pairStates ?st' ! m)) = int (min i b)"
        using upd m' by (simp add: min_def)
      then show ?thesis using linkPair_heading [of rnd i b st] by simp
    next
      case b
      then have "min (int m) (partner (pairStates ?st' ! m)) = int (min i b)"
        using upd m' by (simp add: min_def)
      then show ?thesis using linkPair_heading [of rnd i b st] by simp
    next
      case other
      then have same: "partner (pairStates ?st' ! m) = partner (pairStates st ! m)"
        using upd m' by simp
      with wp m' p obtain h where
        "arrayGet (pairDirections st) (min (int m) (partner (pairStates st ! m))) = Some (Some h)"
        by (auto simp: wellPaired_def headingsPresent_def)
      with linkPair_headingsKept [of st rnd i b] show ?thesis
        unfolding headingsKept_def same by blast
    qed
  qed
  with sym show ?thesis by (simp add: wellPaired_def)
qed

lemma formationStep_ready:
  assumes F: "formationReady st" and i: "i < length (peaks st)"
  shows "\<exists>st'. formationStep rnd i st = Some st' \<and> formationReady st' \<and>
           peaks st' = peaks st \<and> length (pairStates st') = length (pairStates st)"
proof -
  have ii: "i < length (pairStates st)" using F i by (simp add: formationReady_def)
  define state where "state = pairStates st ! i"
  show ?thesis
  proof (cases "partner state \<noteq> - 1 \<or> cooldown state > 0 \<or>
                 (\<forall>catA. categoryOf (peakSolids st) i = Some catA \<longrightarrow> catA = [])")
    case True
    then have "formationStep rnd i st = Some st"
      using i ii by (auto simp: formationStep_def state_def split: option.splits)
    with F show ?thesis by simp
  next
    case False
    then obtain catA where cat: "categoryOf (peakSolids st) i = Some catA" "catA \<noteq> []"
      and free: "partner state = - 1" "\<not> cooldown state > 0"
      by auto
    define peakA where "peakA = peaks st ! i"
    define nearby where "nearby = SpatialGrid_getNearby (spatialGrid st)
        (currentPyramidCenter peakA) (pairFormRadius (motionSystem st))"
    have range: "\<forall>j \<in> set nearby. j < length (pairStates st)"
      using rebuildGrid_nearby_range [of _ st] F
      unfolding nearby_def formationReady_def gridCurrent_def by fastforce
    from scan_result [OF range, of i peakA catA "- 1" "pairFormRadius (motionSystem st)"]
    obtain b d where
      run: "forEach (candidateStep st i peakA catA) nearby (- 1, pairFormRadius (motionSystem st))
              = Some (b, d)" and
      best: "bestAmong st i peakA catA nearby (- 1) (pairFormRadius (motionSystem st)) b d"
      by blast
    have step: "formationStep rnd i st =
                  (if b \<noteq> - 1 then Some (linkPair rnd i (nat b) st) else Some st)"
      using i ii free cat run
      by (simp add: formationStep_def state_def [symmetric] peakA_def [symmetric]
          nearby_def [symmetric])
    show ?thesis
    proof (cases "b = - 1")
      case True
      with step F show ?thesis by simp
    next
      case False
      with best obtain j where j: "b = int j" "eligible st i catA j"
        unfolding bestAmong_def by auto
      have jj: "j < length (pairStates st)" "j \<noteq> i" "partner (pairStates st ! j) = - 1"
        using j(2) by (auto simp: eligible_def)
      have wp: "wellPaired (linkPair rnd i j st)"
        using wellPaired_linkPair [OF _ ii jj(1)] F free jj
        by (auto simp: formationReady_def state_def)
      have "gridCurrent (linkPair rnd i j st)"
        using F gridCurrent_cong [of "linkPair rnd i j st" st] by (simp add: formationReady_def)
      with wp F have "formationReady (linkPair rnd i j st)"
        by (simp add: formationReady_def)
      then show ?thesis using step j(1) by simp
    qed
  qed
qed

lemma findPairs_wellPaired:
  assumes "wellPaired st" and "length (peaks st) \<le> length (pairStates st)"
  shows "\<exists>st'. findPairs rnd st = Some st' \<and> wellPaired st' \<and> sameWorld st st' \<and>
           length (pairStates st') = length (pairStates st)"
proof -
  define P where "P s \<longleftrightarrow> formationReady s \<and> peaks s = peaks st \<and>
      length (pairStates s) = length (pairStates st)" for s :: engine
  have "P (beforeFormation st)"
    using assms by (simp add: P_def formationReady_def wellPaired_beforeFormation)
  then have "\<exists>s'. forEach (formationStep rnd) [0..<length (peaks st)] (beforeFormation st) = Some s' \<and> P s'"
  proof (rule forEach_total)
    fix x t assume "x \<in> set [0..<length (peaks st)]" and "P t"
    then show "\<exists>t'. formationStep rnd x t = Some t' \<and> P t'"
      using formationStep_ready [of t x rnd] by (auto simp: P_def)
  qed
  then obtain st' where run: "findPairs rnd st = Some st'" and P: "P st'"
    by (auto simp: findPairs_eq)
  from sameWorld_findPairs [OF run] P run show ?thesis
    by (auto simp: P_def formationReady_def)
qed

subsection \<open>The invariant through the pairing force\<close>

lemma pushDirection_fields [simp]:
  "pairStates (pushDirection rnd st) = pairStates st"
  "peaks (pushDirection rnd st) = peaks st"
  "headingsKept (pairDirections st) (pairDirections (pushDirection rnd st))"
  by (simp_all add: pushDirection_def)

lemma fold_pushDirection_fields:
  "pairStates (fold (\<lambda>_. pushDirection rnd) ks st) = pairStates st \<and>
   peaks (fold (\<lambda>_. pushDirection rnd) ks st) = peaks st \<and>
   headingsKept (pairDirections st) (pairDirections (fold (\<lambda>_. pushDirection rnd) ks st))"
proof (induction ks arbitrary: st)
  case Nil
  then show ?case by simp
next
  case (Cons k ks)
  have 1: "headingsKept (pairDirections st) (pairDirections (pushDirection rnd st))"
    by simp
  from Cons.IH [of "pushDirection rnd st"]
  have 2: "headingsKept (pairDirections (pushDirection rnd st))
             (pairDirections (fold (\<lambda>_. pushDirection rnd) ks (pushDirection rnd st)))"
    and 3: "pairStates (fold (\<lambda>_. pushDirection rnd) ks (pushDirection rnd st)) = pairStates st"
    and 4: "peaks (fold (\<lambda>_. pushDirection rnd) ks (pushDirection rnd st)) = peaks st"
    by simp_all
  from headingsKept_trans [OF 1 2] 3 4 show ?case by simp
qed

lemma growPairDirections_fields [simp]:
  "pairStates (growPairDirections rnd st) = pairStates st"
  "peaks (growPairDirections rnd st) = peaks st"
  "headingsKept (pairDirections st) (pairDirections (growPairDirections rnd st))"
  using fold_pushDirection_fields [of rnd "[length (pairDirections st)..<length (peaks st)]" st]
  by (simp_all add: growPairDirections_def)

lemma wellPaired_growPairDirections:
  "wellPaired st \<Longrightarrow> wellPaired (growPairDirections rnd st)"
  unfolding wellPaired_def
  using headingsPresent_kept [of st "growPairDirections rnd st"] by simp

lemma breakPair_length [simp]: "length (breakPair M i p h e ps) = length ps"
  by (simp add: breakPair_def Let_def split: option.splits)

lemma breakPair_partners:
  assumes "i < length ps" "0 \<le> p" "nat p < length ps" "m < length ps"
  shows "partner (breakPair M i p h e ps ! m) =
           (if m = i \<or> m = nat p then - 1 else partner (ps ! m))"
  using assms by (auto simp: breakPair_def Let_def arrayGet_def nth_modify)

lemma breakPair_symmetric:
  assumes "pairSymmetric ps" "i < length ps" "partner (ps ! i) \<noteq> - 1"
  shows "pairSymmetric (breakPair M i (partner (ps ! i)) h e ps)"
proof -
  have p: "0 \<le> partner (ps ! i)" "nat (partner (ps ! i)) < length ps"
    using assms unfolding pairSymmetric_def by auto
  show ?thesis
    by (rule unpair_symmetric [OF assms(1,2), of "nat (partner (ps ! i))"])
       (use p assms(2) in \<open>simp_all add: breakPair_partners\<close>)
qed

lemma breakPair_partnersKept:
  assumes "pairSymmetric ps" "i < length ps" "partner (ps ! i) \<noteq> - 1"
  shows "partnersKept ps (breakPair M i (partner (ps ! i)) h e ps)"
proof -
  have p: "0 \<le> partner (ps ! i)" "nat (partner (ps ! i)) < length ps"
    using assms unfolding pairSymmetric_def by auto
  show ?thesis
    using p assms(2) by (simp add: partnersKept_def breakPair_partners)
qed

text \<open>The two outcomes of the paired branch.\<close>

lemma headingsKept_if [simp]:
  "headingsKept ds (if c then ds[n := Some h] else ds)"
  by simp

lemma pairedForces_props:
  assumes "arrayGet (pairDirections st) (min (int i) (partner (pairStates st ! i))) = Some (Some h0)"
  shows "\<exists>st' f'. pairedForces rnd i peak pk st f = Some (st', f') \<and>
          headingsKept (pairDirections st) (pairDirections st') \<and>
          (pairStates st' = pairStates st \<or>
           (\<exists>hd e. pairStates st' =
              breakPair (motionSystem st) i (partner (pairStates st ! i)) hd e (pairStates st)))"
proof -
  define k where "k = (if int i = min (int i) (partner (pairStates st ! i)) \<and>
       pairJitterInterval (motionSystem st) \<noteq> 0 \<and>
       frames (pairStates st ! i) mod pairJitterInterval (motionSystem st) = 0
     then rng st + 1 else rng st)"
  consider (early) "\<not> pairMinFrames (motionSystem st) < frames (pairStates st ! i)"
    | (stay) "pairMinFrames (motionSystem st) < frames (pairStates st ! i)"
        "\<not> rnd (k + 2) < pairBreakProb (motionSystem st)"
    | (break) "pairMinFrames (motionSystem st) < frames (pairStates st ! i)"
        "rnd (k + 2) < pairBreakProb (motionSystem st)"
    by blast
  then show ?thesis
  proof cases
    case early
    then show ?thesis
      unfolding pairedForces_def Let_def assms option.case
      by (simp split del: if_split)
  next
    case stay
    then show ?thesis
      unfolding pairedForces_def Let_def assms option.case k_def
      by (simp split del: if_split)
  next
    case break
    then show ?thesis
      unfolding pairedForces_def Let_def assms option.case k_def
      by (simp split del: if_split) blast
  qed
qed

lemma pairSymmetric_cong:
  assumes "map partner ps' = map partner ps"
  shows "pairSymmetric ps' = pairSymmetric ps"
proof -
  have l: "length ps' = length ps" using assms by (metis length_map)
  have n: "partner (ps' ! m) = partner (ps ! m)" if "m < length ps" for m
    using assms that l by (metis nth_map)
  show ?thesis
    unfolding pairSymmetric_def l
    by (metis (no_types, lifting) n)
qed

lemma wellPaired_cong:
  assumes "map partner (pairStates b) = map partner (pairStates a)"
    and "pairDirections b = pairDirections a"
  shows "wellPaired b = wellPaired a"
proof -
  have l: "length (pairStates b) = length (pairStates a)" using assms(1) by (metis length_map)
  have n: "partner (pairStates b ! m) = partner (pairStates a ! m)" if "m < length (pairStates a)" for m
    using assms(1) that l by (metis nth_map)
  have "headingsPresent b = headingsPresent a"
    unfolding headingsPresent_def l assms(2) using n by auto
  with pairSymmetric_cong [OF assms(1)] show ?thesis by (simp add: wellPaired_def)
qed

lemma map_partner_modify:
  assumes "\<And>s. partner (g s) = partner s"
  shows "map partner (modify k g ps) = map partner ps"
proof (rule nth_equalityI)
  show "length (map partner (modify k g ps)) = length (map partner ps)" by simp
next
  fix m assume "m < length (map partner (modify k g ps))"
  then have m: "m < length ps" by simp
  show "map partner (modify k g ps) ! m = map partner ps ! m"
    using m assms by (cases "m = k") (simp_all add: modify_def)
qed

lemma map_partner_update:
  "k < length ps \<Longrightarrow> partner s = partner (ps ! k) \<Longrightarrow> map partner (ps[k := s]) = map partner ps"
  by (simp add: map_update list_update_same_conv)

lemma soloForces_result:
  assumes "i < length (pairStates st)"
  shows "\<exists>st' f'. soloForces rnd i st f = (st', f') \<and>
           map partner (pairStates st') = map partner (pairStates st) \<and>
           pairDirections st' = pairDirections st"
  using assms by (simp add: soloForces_def Let_def map_partner_update)

lemma applyPairingForces_wellPaired:
  assumes wp: "wellPaired st" and i: "i < length (pairStates st)" "i < length (peaks st)"
  shows "\<exists>st' f'. applyPairingForces rnd i st f = Some (st', f') \<and> wellPaired st' \<and>
           length (pairStates st') = length (pairStates st)"
proof -
  define g where "g = growPairDirections rnd st"
  have wg: "wellPaired g" using wp by (simp add: g_def wellPaired_growPairDirections)
  have pg: "pairStates g = pairStates st" "peaks g = peaks st" by (simp_all add: g_def)
  define state where "state = pairStates st ! i"
  show ?thesis
  proof (cases "partner state = - 1")
    case True
    from soloForces_result [of i g rnd f] i pg obtain st' f' where
      s: "soloForces rnd i g f = (st', f')"
        "map partner (pairStates st') = map partner (pairStates g)"
        "pairDirections st' = pairDirections g"
      by auto
    have "applyPairingForces rnd i st f = Some (st', f')"
      using True i s(1) by (simp add: applyPairingForces_def g_def [symmetric] pg state_def)
    moreover have "wellPaired st'" using wellPaired_cong [OF s(2,3)] wg by simp
    moreover have "length (pairStates st') = length (pairStates st)"
      using s(2) pg by (metis length_map)
    ultimately show ?thesis by blast
  next
    case False
    define st1 where
      "st1 = g\<lparr>pairStates := modify i (\<lambda>s. s\<lparr>frames := frames s + 1\<rparr>) (pairStates st)\<rparr>"
    have m1: "map partner (pairStates st1) = map partner (pairStates g)"
      by (simp add: st1_def map_partner_modify pg)
    have w1: "wellPaired st1"
      using wellPaired_cong [OF m1] wg by (simp add: st1_def)
    have l1: "length (pairStates st1) = length (pairStates st)" "peaks st1 = peaks st"
      by (simp_all add: st1_def pg)
    have p1: "partner (pairStates st1 ! i) = partner state"
      using i by (simp add: st1_def pg nth_modify state_def)
    have step: "applyPairingForces rnd i st f =
       (case arrayGet (peaks st) (partner state) of
          None \<Rightarrow> Some (st1, f)
        | Some pk \<Rightarrow>
            if vlength (subVectors (currentPyramidCenter pk) (currentPyramidCenter (peaks st ! i)))
                 < 0.000001
            then Some (st1, f) else pairedForces rnd i (peaks st ! i) pk st1 f)"
      using False i
      by (simp add: applyPairingForces_def g_def [symmetric] pg state_def st1_def
          split: option.splits)
    show ?thesis
    proof (cases "\<exists>pk. arrayGet (peaks st) (partner state) = Some pk \<and>
        \<not> vlength (subVectors (currentPyramidCenter pk) (currentPyramidCenter (peaks st ! i)))
             < 0.000001")
      case False
      then have "applyPairingForces rnd i st f = Some (st1, f)"
        by (auto simp: step split: option.splits)
      with w1 l1 show ?thesis by simp
    next
      case True
      then obtain pk where pk: "arrayGet (peaks st) (partner state) = Some pk"
        "\<not> vlength (subVectors (currentPyramidCenter pk) (currentPyramidCenter (peaks st ! i)))
             < 0.000001"
        by blast
      have run: "applyPairingForces rnd i st f = pairedForces rnd i (peaks st ! i) pk st1 f"
        using pk by (simp add: step)
      have paired: "partner (pairStates st1 ! i) \<noteq> - 1" using False p1 by simp
      have i1: "i < length (pairStates st1)" using i l1 by simp
      from w1 i1 paired obtain h0 where
        "arrayGet (pairDirections st1) (min (int i) (partner (pairStates st1 ! i))) = Some (Some h0)"
        by (auto simp: wellPaired_def headingsPresent_def)
      from pairedForces_props [OF this, of rnd "peaks st ! i" pk f]
      obtain st' f' where
        r: "pairedForces rnd i (peaks st ! i) pk st1 f = Some (st', f')" and
        hk: "headingsKept (pairDirections st1) (pairDirections st')" and
        alt: "pairStates st' = pairStates st1 \<or>
           (\<exists>hd e. pairStates st' =
              breakPair (motionSystem st1) i (partner (pairStates st1 ! i)) hd e (pairStates st1))"
        by blast
      have s1: "pairSymmetric (pairStates st1)" using w1 by (simp add: wellPaired_def)
      have sym: "pairSymmetric (pairStates st')"
        using alt s1 breakPair_symmetric [OF s1 i1 paired] by auto
      have pk': "partnersKept (pairStates st1) (pairStates st')"
        using alt breakPair_partnersKept [OF s1 i1 paired] by auto
      have "headingsPresent st'"
        by (rule headingsPresent_kept [OF _ hk pk']) (use w1 in \<open>simp add: wellPaired_def\<close>)
      with sym have "wellPaired st'" by (simp add: wellPaired_def)
      moreover have "length (pairStates st') = length (pairStates st)"
        using pk' l1 by (simp add: partnersKept_def)
      ultimately show ?thesis using run r by simp
    qed
  qed
qed

subsection \<open>The invariant through the step of one agent\<close>

lemma mutualLinks_wellPaired:
  assumes "wellPaired st" "length (peaks st) \<le> length (pairStates st)"
  shows "mutualLinks st"
  unfolding mutualLinks_def
proof (intro allI impI)
  fix i j assume i: "i < length (peaks st)" and j: "j < length (peaks st)"
  have s: "pairSymmetric (pairStates st)" using assms(1) by (simp add: wellPaired_def)
  have "partner (pairStates st ! b) = int a"
    if "a < length (pairStates st)" "partner (pairStates st ! a) = int b" for a b
    using s that unfolding pairSymmetric_def by force
  then show "(partner (pairStates st ! i) = int j) = (partner (pairStates st ! j) = int i)"
    using i j assms(2) by (metis less_le_trans)
qed

lemma accumulateForces_wellPaired:
  assumes wp: "wellPaired st" and i: "i < length (pairStates st)" "i < length (peaks st)"
  shows "\<exists>st' f'. accumulateForces rnd i st = Some (st', f') \<and> wellPaired st' \<and>
           length (pairStates st') = length (pairStates st)"
proof -
  define st0 where "st0 = clearBreakFlag i st"
  have m0: "map partner (pairStates st0) = map partner (pairStates st)"
    by (simp add: st0_def clearBreakFlag_def map_partner_modify)
  have w0: "wellPaired st0"
    using wellPaired_cong [OF m0] wp by (simp add: st0_def clearBreakFlag_def)
  have i0: "i < length (pairStates st0)" "i < length (peaks st0)"
    using i by (simp_all add: st0_def clearBreakFlag_def)
  from applyPairingForces_wellPaired [OF w0 i0, of rnd zeroVec] obtain st1 f1 where
    p: "applyPairingForces rnd i st0 zeroVec = Some (st1, f1)" and w1: "wellPaired st1"
    and l1: "length (pairStates st1) = length (pairStates st0)"
    by blast
  have "sameWorld st0 st1" using sameWorld_applyPairingForces [OF p, of st0] by simp
  then have pk: "peaks st1 = peaks st" by (simp add: sameWorld_def st0_def clearBreakFlag_def)
  have "\<exists>f2. applyRepulsionForces i st1 f1 = Some f2"
    using i(2) pk by (simp add: applyRepulsionForces_def Let_def)
  then obtain f2 where
    r: "(if \<not> breakThisFrame (pairStates st1 ! i) then applyRepulsionForces i st1 f1 else Some f1)
          = Some f2"
    by (cases "breakThisFrame (pairStates st1 ! i)") auto
  obtain st2 f3 where
    e: "applyExplorationForces rnd i st1 f2 (time st1) = Some (st2, f3)" and
    e2: "pairStates st2 = pairStates st1" "pairDirections st2 = pairDirections st1"
    using i(2) pk by (auto simp: applyExplorationForces_def Let_def split_beta)
  have "accumulateForces rnd i st = Some (st2, f3)"
    using i(1) p r e by (simp add: accumulateForces_def Let_def st0_def [symmetric])
  moreover have "wellPaired st2"
    using wellPaired_cong [of st2 st1] w1 e2 by simp
  moreover have "length (pairStates st2) = length (pairStates st0)" using e2 l1 by simp
  ultimately show ?thesis by (simp add: st0_def clearBreakFlag_def)
qed

lemma integrate_pairing [simp]:
  "pairStates (integrate i peak bt f st) = pairStates st"
  "pairDirections (integrate i peak bt f st) = pairDirections st"
  "length (peaks (integrate i peak bt f st)) = length (peaks st)"
  by (simp_all add: integrate_def Let_def)

lemma softLock_pairing [simp]:
  "pairStates (softLock i peak target st) = pairStates st"
  "pairDirections (softLock i peak target st) = pairDirections st"
  "length (peaks (softLock i peak target st)) = length (peaks st)"
  by (simp_all add: softLock_def Let_def)

lemma movePeak_ready:
  assumes R: "moveReady n st" and i: "i < n" and sw: "length swarm = n"
  shows "\<exists>st'. movePeak rnd swarm i st = Some st' \<and> moveReady n st'"
proof -
  have ip: "i < length (peaks st)" "i < length (pairStates st)"
    using R i by (simp_all add: moveReady_def)
  from accumulateForces_wellPaired [OF _ ip(2,1), of rnd] R obtain st1 f where
    acc: "accumulateForces rnd i st = Some (st1, f)" and w1: "wellPaired st1"
    and l1: "length (pairStates st1) = length (pairStates st)"
    by (auto simp: moveReady_def)
  have "sameWorld st st1" using sameWorld_accumulateForces [OF acc, of st] by simp
  then have p1: "peaks st1 = peaks st" by (simp add: sameWorld_def)
  have ready: "moveReady n (integrate i peak bt f st1)" for peak bt
    using w1 l1 p1 R wellPaired_cong [of "integrate i peak bt f st1" st1]
    by (simp add: moveReady_def)
  have soft: "moveReady n (softLock i peak target st)" for peak target
    using R wellPaired_cong [of "softLock i peak target st" st] by (simp add: moveReady_def)
  show ?thesis
    using ip(1) i sw acc R ready soft
    by (auto simp: movePeak_def split: option.splits)
qed

lemma length_generateSwarmPeakPositions [simp]:
  "length (generateSwarmPeakPositions n t) = n"
  by (simp add: generateSwarmPeakPositions_def)

lemma length_swarmTargets [simp]: "length (swarmTargets st) = length (peaks st)"
  by (simp add: swarmTargets_def split: option.splits)

subsection \<open>The invariant through a tick\<close>

lemma wellPaired_recordLastPositions [simp]:
  "wellPaired (recordLastPositions st) = wellPaired st"
  by (rule wellPaired_cong) simp_all

lemma mutualLinks_recordLastPositions [simp]:
  "mutualLinks (recordLastPositions st) = mutualLinks st"
  by (simp add: mutualLinks_def)

lemma moveReady_mutualLinks: "moveReady n st \<Longrightarrow> mutualLinks st"
  by (simp add: moveReady_def mutualLinks_wellPaired)

lemma tick_stages:
  assumes wp: "wellPaired st"
  shows "\<exists>st2 st'. findPairs rnd (resizeAuxiliary st) = Some st2 \<and> mutualLinks st2 \<and>
           (\<forall>k \<le> length (peaks st).
               \<exists>s. forEach (movePeak rnd (swarmTargets (resizeAuxiliary st))) [0..<k] st2 = Some s \<and>
                   mutualLinks s) \<and>
           tick rnd st = Some st' \<and> mutualLinks st' \<and> wellPaired st' \<and>
           length (peaks st') = length (peaks st)"
proof -
  define st1 where "st1 = resizeAuxiliary st"
  define sw where "sw = swarmTargets st1"
  define n where "n = length (peaks st)"
  have w1: "wellPaired st1" and l1: "length (peaks st1) \<le> length (pairStates st1)"
    using wellPaired_resizeAuxiliary [OF wp] by (simp_all add: st1_def)
  from findPairs_wellPaired [OF w1 l1, of rnd] obtain st2 where
    fp: "findPairs rnd st1 = Some st2" and w2: "wellPaired st2" and
    sw2: "sameWorld st1 st2" and l2: "length (pairStates st2) = length (pairStates st1)"
    by blast
  have p2: "peaks st2 = peaks st" using sw2 by (simp add: sameWorld_def st1_def)
  have R2: "moveReady n st2"
    using w2 l1 l2 p2 by (simp add: moveReady_def n_def st1_def)
  have lsw: "length sw = n" by (simp add: sw_def st1_def n_def)
  have prefix: "\<exists>s. forEach (movePeak rnd sw) [0..<k] st2 = Some s \<and> moveReady n s"
    if "k \<le> n" for k
  proof (rule forEach_total [of "moveReady n", OF R2])
    fix x t assume "x \<in> set [0..<k]" and "moveReady n t"
    then show "\<exists>t'. movePeak rnd sw x t = Some t' \<and> moveReady n t'"
      using movePeak_ready [of n t x sw rnd] that lsw by simp
  qed
  from prefix [of n] obtain st3 where
    loop: "forEach (movePeak rnd sw) [0..<n] st2 = Some st3" and R3: "moveReady n st3"
    by auto
  have t: "tick rnd st = Some (recordLastPositions st3)"
    using fp loop by (simp add: tick_def Let_def st1_def [symmetric] sw_def [symmetric] p2 n_def)
  have "\<forall>k \<le> length (peaks st).
          \<exists>s. forEach (movePeak rnd sw) [0..<k] st2 = Some s \<and> mutualLinks s"
    using prefix moveReady_mutualLinks unfolding n_def by blast
  moreover have "mutualLinks st2" using R2 by (rule moveReady_mutualLinks)
  moreover have "mutualLinks (recordLastPositions st3)"
    using R3 by (simp add: moveReady_mutualLinks)
  moreover have "wellPaired (recordLastPositions st3)"
    using R3 by (simp add: moveReady_def)
  moreover have "length (peaks (recordLastPositions st3)) = length (peaks st)"
    using R3 by (simp add: moveReady_def n_def)
  ultimately show ?thesis
    using fp t unfolding st1_def sw_def by blast
qed

lemma update_wellPaired:
  assumes "wellPaired st"
  shows "\<exists>st'. update rnd st = Some st' \<and> wellPaired st'"
proof -
  define st1 where "st1 = st\<lparr>time := time st + 0.016, frameCounter := frameCounter st + 1\<rparr>"
  have w1: "wellPaired st1"
    using wellPaired_cong [of st1 st] assms by (simp add: st1_def)
  from tick_stages [OF w1, of rnd] obtain st' where "tick rnd st1 = Some st'" "wellPaired st'"
    by blast
  then show ?thesis
    unfolding update_def Let_def st1_def [symmetric] using assms w1 by auto
qed

lemma wellPaired_empty:
  "pairStates st = [] \<Longrightarrow> wellPaired st"
  by (simp add: wellPaired_def pairSymmetric_def headingsPresent_def)

lemma wellPaired_constructor:
  "ParticleSystem_constructor seeds = Inr e \<Longrightarrow> wellPaired e"
  by (auto simp: ParticleSystem_constructor_def SpatialGrid_constructor_def intro: wellPaired_empty)

lemma createSinglePeak_aux [simp]:
  "pairStates (createSinglePeak i n st) = pairStates st"
  "pairDirections (createSinglePeak i n st) = pairDirections st"
  "lastPositions (createSinglePeak i n st) = lastPositions st"
  "velocities (createSinglePeak i n st) = velocities st"
  "peaks (createSinglePeak i n st) = peaks st @ [\<lparr>currentPyramidCenter =
       Vec (real i * 80 - (real n * 80) / 2) 0 0, categoryVisible = True, exploreSeed = 0,
       evolvingLock = False, evolvingTargetCenter = None, evolvingMoveSpeed = None\<rparr>]"
  by (simp_all add: createSinglePeak_def)

lemma removeSinglePeak_aux [simp]:
  "pairStates (removeSinglePeak i st) = pairStates st"
  "pairDirections (removeSinglePeak i st) = pairDirections st"
  "lastPositions (removeSinglePeak i st) = lastPositions st"
  "velocities (removeSinglePeak i st) = velocities st"
  by (simp_all add: removeSinglePeak_def)

lemma repositionPeaks_aux [simp]:
  "pairStates (repositionPeaks st) = pairStates st"
  "pairDirections (repositionPeaks st) = pairDirections st"
  "lastPositions (repositionPeaks st) = lastPositions st"
  "velocities (repositionPeaks st) = velocities st"
  "length (peaks (repositionPeaks st)) = length (peaks st)"
  by (simp_all add: repositionPeaks_def)

lemma fold_create_aux:
  "pairStates (fold (\<lambda>i. createSinglePeak i n) ks st) = pairStates st \<and>
   pairDirections (fold (\<lambda>i. createSinglePeak i n) ks st) = pairDirections st \<and>
   lastPositions (fold (\<lambda>i. createSinglePeak i n) ks st) = lastPositions st \<and>
   velocities (fold (\<lambda>i. createSinglePeak i n) ks st) = velocities st \<and>
   length (peaks (fold (\<lambda>i. createSinglePeak i n) ks st)) = length (peaks st) + length ks"
  by (induction ks arbitrary: st) simp_all

lemma fold_remove_aux:
  "pairStates (fold removeSinglePeak ks st) = pairStates st \<and>
   pairDirections (fold removeSinglePeak ks st) = pairDirections st \<and>
   lastPositions (fold removeSinglePeak ks st) = lastPositions st \<and>
   velocities (fold removeSinglePeak ks st) = velocities st"
  by (induction ks arbitrary: st) simp_all

lemma adjustPeakCount_aux [simp]:
  "pairStates (adjustPeakCount n st) = pairStates st"
  "pairDirections (adjustPeakCount n st) = pairDirections st"
  "lastPositions (adjustPeakCount n st) = lastPositions st"
  "velocities (adjustPeakCount n st) = velocities st"
  by (simp_all add: adjustPeakCount_def Let_def fold_create_aux fold_remove_aux)

lemma wellPaired_adjustPeakCount [simp]:
  "wellPaired (adjustPeakCount n st) = wellPaired st"
  by (rule wellPaired_cong) simp_all

subsection \<open>The break flag\<close>

lemma clearBreakFlag_fields [simp]:
  "length (pairStates (clearBreakFlag i st)) = length (pairStates st)"
  "peaks (clearBreakFlag i st) = peaks st"
  "pairDirections (clearBreakFlag i st) = pairDirections st"
  "motionSystem (clearBreakFlag i st) = motionSystem st"
  by (simp_all add: clearBreakFlag_def)

lemma clearBreakFlag_nth:
  "m < length (pairStates st) \<Longrightarrow>
   pairStates (clearBreakFlag i st) ! m =
     (if m = i then (pairStates st ! i)\<lparr>breakThisFrame := False\<rparr> else pairStates st ! m)"
  by (simp add: clearBreakFlag_def nth_modify)

lemma breakPair_self:
  assumes "i < length ps"
  shows "breakThisFrame (breakPair M i p h e ps ! i) \<and> partner (breakPair M i p h e ps ! i) = - 1"
  using assms by (auto simp: breakPair_def Let_def arrayGet_def nth_modify)

lemma breakPair_other:
  assumes "i < length ps" "0 \<le> p" "nat p < length ps"
  shows "breakThisFrame (breakPair M i p h e ps ! nat p) \<and>
         partner (breakPair M i p h e ps ! nat p) = - 1"
  using assms by (auto simp: breakPair_def Let_def arrayGet_def nth_modify)

text \<open>What the pairing pass does to the agent's own flag and partner.\<close>

lemma pairedForces_flag:
  assumes run: "pairedForces rnd i peak pk st f = Some (st', f')" and i: "i < length (pairStates st)"
  shows "(pairStates st' = pairStates st) \<or>
         (breakThisFrame (pairStates st' ! i) \<and> partner (pairStates st' ! i) = - 1)"
proof -
  from run obtain h0 where
    h0: "arrayGet (pairDirections st) (min (int i) (partner (pairStates st ! i))) = Some (Some h0)"
    by (auto simp: pairedForces_def Let_def split: option.splits)
  from pairedForces_props [OF h0, of rnd peak pk f] run
  have "pairStates st' = pairStates st \<or>
           (\<exists>hd e. pairStates st' =
              breakPair (motionSystem st) i (partner (pairStates st ! i)) hd e (pairStates st))"
    by auto
  then show ?thesis using breakPair_self [OF i] by auto
qed

lemma applyPairingForces_flag:
  assumes run: "applyPairingForces rnd i (clearBreakFlag i st) zeroVec = Some (st1, f1)"
    and i: "i < length (pairStates st)"
  shows "breakThisFrame (pairStates st1 ! i) \<longleftrightarrow>
           (partner (pairStates st ! i) \<noteq> - 1 \<and> partner (pairStates st1 ! i) = - 1)"
proof -
  define g where "g = growPairDirections rnd (clearBreakFlag i st)"
  have pg: "pairStates g = pairStates (clearBreakFlag i st)" by (simp add: g_def)
  have gi: "pairStates g ! i = (pairStates st ! i)\<lparr>breakThisFrame := False\<rparr>"
    using i by (simp add: pg clearBreakFlag_nth)
  show ?thesis
  proof (cases "partner (pairStates st ! i) = - 1")
    case True
    then have "(st1, f1) = soloForces rnd i g zeroVec"
      using run i gi by (simp add: applyPairingForces_def g_def [symmetric] pg)
    then have "pairStates st1 ! i = (pairStates g ! i)\<lparr>breakFade := breakFade (pairStates st1 ! i)\<rparr>"
      using i pg by (auto simp: soloForces_def Let_def)
    then have "\<not> breakThisFrame (pairStates st1 ! i)"
      by (metis gi PairState.select_convs(9) PairState.surjective PairState.update_convs(6)
          PairState.update_convs(9))
    with True show ?thesis by simp
  next
    case False
    define s1 where
      "s1 = g\<lparr>pairStates := modify i (\<lambda>s. s\<lparr>frames := frames s + 1\<rparr>) (pairStates g)\<rparr>"
    have s1i: "pairStates s1 ! i = (pairStates st ! i)\<lparr>breakThisFrame := False,
                 frames := frames (pairStates st ! i) + 1\<rparr>"
      using i by (simp add: s1_def pg nth_modify clearBreakFlag_nth)
    have l1: "i < length (pairStates s1)" using i by (simp add: s1_def pg)
    have gl: "arrayGet (pairStates g) (int i) = Some (pairStates g ! i)"
      using i by (simp add: pg)
    have gp: "partner (pairStates g ! i) \<noteq> - 1" using False gi by simp
    from run have
      "(st1, f1) = (s1, zeroVec) \<or> (\<exists>peak pk. pairedForces rnd i peak pk s1 zeroVec = Some (st1, f1))"
      unfolding applyPairingForces_def Let_def g_def [symmetric] s1_def [symmetric] gl option.case
      using gp by (auto split: option.splits if_splits)
    then have "pairStates st1 = pairStates s1 \<or>
         (breakThisFrame (pairStates st1 ! i) \<and> partner (pairStates st1 ! i) = - 1)"
    proof
      assume "(st1, f1) = (s1, zeroVec)"
      then show ?thesis by simp
    next
      assume "\<exists>peak pk. pairedForces rnd i peak pk s1 zeroVec = Some (st1, f1)"
      then obtain peak pk where "pairedForces rnd i peak pk s1 zeroVec = Some (st1, f1)" by blast
      from pairedForces_flag [OF this l1] show ?thesis .
    qed
    then show ?thesis using False s1i by auto
  qed
qed

lemma pairedForces_break:
  assumes h0: "arrayGet (pairDirections st) (min (int i) (partner (pairStates st ! i))) = Some (Some h0)"
    and fr: "pairMinFrames (motionSystem st) < frames (pairStates st ! i)"
    and dr: "\<forall>n. rnd n < pairBreakProb (motionSystem st)"
  shows "\<exists>st' f' hd e. pairedForces rnd i peak pk st f = Some (st', f') \<and>
           pairStates st' =
              breakPair (motionSystem st) i (partner (pairStates st ! i)) hd e (pairStates st)"
  unfolding pairedForces_def Let_def h0 option.case
  using fr dr by (simp split del: if_split) blast

lemma growPairDirections_motion [simp]:
  "motionSystem (growPairDirections rnd st) = motionSystem st"
proof -
  have "sameWorld st (growPairDirections rnd st)" by simp
  then show ?thesis by (simp add: sameWorld_def)
qed

lemma applyPairingForces_solo:
  assumes "i < length (pairStates st)" "partner (pairStates st ! i) = - 1"
  shows "\<exists>st1 f1. applyPairingForces rnd i (clearBreakFlag i st) f = Some (st1, f1)"
proof -
  have "partner (pairStates (growPairDirections rnd (clearBreakFlag i st)) ! i) = - 1"
    using assms by (simp add: clearBreakFlag_nth)
  then show ?thesis
    using assms(1) by (simp add: applyPairingForces_def Let_def split_beta prod_eq_iff)
qed

lemma applyPairingForces_breaks:
  assumes wp: "wellPaired st" and i: "i < length (pairStates st)" "i < length (peaks st)"
    and p: "partner (pairStates st ! i) = int p" "p < length (peaks st)"
    and far: "\<not> vlength (subVectors (currentPyramidCenter (peaks st ! p))
                               (currentPyramidCenter (peaks st ! i))) < 0.000001"
    and fr: "pairMinFrames (motionSystem st) < frames (pairStates st ! i) + 1"
    and dr: "\<forall>n. rnd n < pairBreakProb (motionSystem st)"
  shows "\<exists>st1 f1. applyPairingForces rnd i (clearBreakFlag i st) zeroVec = Some (st1, f1) \<and>
           partner (pairStates st1 ! i) = - 1"
proof -
  define c where "c = clearBreakFlag i st"
  define g where "g = growPairDirections rnd c"
  define s1 where
    "s1 = g\<lparr>pairStates := modify i (\<lambda>s. s\<lparr>frames := frames s + 1\<rparr>) (pairStates g)\<rparr>"
  have mc: "map partner (pairStates c) = map partner (pairStates st)"
    by (simp add: c_def clearBreakFlag_def map_partner_modify)
  have wc: "wellPaired c" using wellPaired_cong [OF mc] wp by (simp add: c_def)
  have wg: "wellPaired g" using wc by (simp add: g_def wellPaired_growPairDirections)
  have pg: "pairStates g = pairStates c" "peaks g = peaks st" by (simp_all add: g_def c_def)
  have m1: "map partner (pairStates s1) = map partner (pairStates g)"
    by (simp add: s1_def map_partner_modify)
  have w1: "wellPaired s1" using wellPaired_cong [OF m1] wg by (simp add: s1_def)
  have gi: "pairStates g ! i = (pairStates st ! i)\<lparr>breakThisFrame := False\<rparr>"
    using i by (simp add: pg c_def clearBreakFlag_nth)
  have s1i: "pairStates s1 ! i = (pairStates st ! i)\<lparr>breakThisFrame := False,
               frames := frames (pairStates st ! i) + 1\<rparr>"
    using i by (simp add: s1_def pg c_def nth_modify clearBreakFlag_nth)
  have l1: "i < length (pairStates s1)" using i by (simp add: s1_def pg c_def)
  have paired: "partner (pairStates s1 ! i) \<noteq> - 1" using p(1) s1i by simp
  from w1 l1 paired obtain h0 where
    h0: "arrayGet (pairDirections s1) (min (int i) (partner (pairStates s1 ! i))) = Some (Some h0)"
    by (auto simp: wellPaired_def headingsPresent_def)
  have fr1: "pairMinFrames (motionSystem s1) < frames (pairStates s1 ! i)"
    using fr s1i by (simp add: s1_def g_def c_def)
  have dr1: "\<forall>n. rnd n < pairBreakProb (motionSystem s1)"
    using dr by (simp add: s1_def g_def c_def)
  from pairedForces_break [OF h0 fr1 dr1, of "peaks st ! i" "peaks st ! p" zeroVec]
  obtain st1 f1 hd e where
    r: "pairedForces rnd i (peaks st ! i) (peaks st ! p) s1 zeroVec = Some (st1, f1)" and
    ps: "pairStates st1 =
           breakPair (motionSystem s1) i (partner (pairStates s1 ! i)) hd e (pairStates s1)"
    by blast
  have gl: "arrayGet (pairStates g) (int i) = Some (pairStates g ! i)"
    using i by (simp add: pg c_def)
  have gp: "partner (pairStates g ! i) = int p" using p(1) gi by simp
  have "applyPairingForces rnd i c zeroVec = Some (st1, f1)"
    unfolding applyPairingForces_def Let_def g_def [symmetric] s1_def [symmetric] gl option.case
    using gp p(2) i(2) far r by (simp add: s1_def pg)
  moreover have "partner (pairStates st1 ! i) = - 1"
    unfolding ps using breakPair_self [OF l1] by simp
  ultimately show ?thesis unfolding c_def by blast
qed

text \<open>
  C10. When the pairing pass of agent \<open>i\<close> breaks its pair (the agent is paired when its
  step starts and unpaired when its pairing pass returns), the force offset of agent
  \<open>i\<close> is the result of the pairing pass with only the exploration pass applied to it:
  the repulsion pass is not run. An agent that is unpaired when its own step starts,
  such as the partner processed later in the same tick, whose flag \<open>_breakPair\<close> has
  set, always gets the repulsion pass: its step clears the flag first.
\<close>

theorem break_skips_repulsion:
  assumes i: "i < length (pairStates st)"
    and run: "applyPairingForces rnd i (clearBreakFlag i st) zeroVec = Some (st1, f1)"
    and paired: "partner (pairStates st ! i) \<noteq> - 1"
    and broke: "partner (pairStates st1 ! i) = - 1"
  shows "accumulateForces rnd i st = applyExplorationForces rnd i st1 f1 (time st1) \<and>
         (\<forall>p (st2::engine). p < length (pairStates st2) \<and> partner (pairStates st2 ! p) = - 1 \<longrightarrow>
            (\<exists>s1 g1. applyPairingForces rnd p (clearBreakFlag p st2) zeroVec = Some (s1, g1) \<and>
               accumulateForces rnd p st2 =
                 (case applyRepulsionForces p s1 g1 of
                    None \<Rightarrow> None
                  | Some g2 \<Rightarrow> applyExplorationForces rnd p s1 g2 (time s1))))"
proof (intro conjI allI impI)
  have "breakThisFrame (pairStates st1 ! i)"
    using applyPairingForces_flag [OF run i] paired broke by simp
  then show "accumulateForces rnd i st = applyExplorationForces rnd i st1 f1 (time st1)"
    using i run by (simp add: accumulateForces_def)
next
  fix p and st2 :: engine assume a: "p < length (pairStates st2) \<and> partner (pairStates st2 ! p) = - 1"
  from applyPairingForces_solo [of p st2 rnd zeroVec] a obtain s1 g1 where
    r: "applyPairingForces rnd p (clearBreakFlag p st2) zeroVec = Some (s1, g1)"
    by blast
  have "\<not> breakThisFrame (pairStates s1 ! p)"
    using applyPairingForces_flag [OF r] a by simp
  then have "accumulateForces rnd p st2 =
                 (case applyRepulsionForces p s1 g1 of
                    None \<Rightarrow> None
                  | Some g2 \<Rightarrow> applyExplorationForces rnd p s1 g2 (time s1))"
    using a r by (simp add: accumulateForces_def)
  with r show "\<exists>s1 g1. applyPairingForces rnd p (clearBreakFlag p st2) zeroVec = Some (s1, g1) \<and>
               accumulateForces rnd p st2 =
                 (case applyRepulsionForces p s1 g1 of
                    None \<Rightarrow> None
                  | Some g2 \<Rightarrow> applyExplorationForces rnd p s1 g2 (time s1))"
    by blast
qed

subsection \<open>Shrinking the population\<close>

lemma removeSinglePeak_last:
  "length (peaks st) = Suc c \<Longrightarrow> length (peaks (removeSinglePeak c st)) = c"
  by (simp add: removeSinglePeak_def)

lemma fold_remove_length:
  "t \<le> c \<Longrightarrow> length (peaks st) = c \<Longrightarrow>
   length (peaks (fold removeSinglePeak (rev [t..<c]) st)) = t"
proof (induction c arbitrary: st)
  case 0
  then show ?case by simp
next
  case (Suc c)
  show ?case
  proof (cases "t = Suc c")
    case True
    then show ?thesis using Suc.prems by simp
  next
    case False
    then have t: "t \<le> c" using Suc.prems by simp
    have "length (peaks (removeSinglePeak c st)) = c"
      using Suc.prems by (simp add: removeSinglePeak_last)
    from Suc.IH [OF t this] t show ?thesis by simp
  qed
qed

lemma length_peaks_adjustPeakCount:
  assumes "0 < n"
  shows "length (peaks (adjustPeakCount n st)) = nat n"
proof -
  consider (grow) "nat n > length (peaks st)" | (shrink) "nat n < length (peaks st)"
    | (same) "nat n = length (peaks st)" by linarith
  then show ?thesis
  proof cases
    case grow
    then show ?thesis using assms by (simp add: adjustPeakCount_def Let_def fold_create_aux)
  next
    case shrink
    then show ?thesis using assms by (simp add: adjustPeakCount_def Let_def fold_remove_length)
  next
    case same
    then show ?thesis using assms by (simp add: adjustPeakCount_def Let_def)
  qed
qed

lemma growTo_noop: "n \<le> length xs \<Longrightarrow> growTo n d xs = xs"
  by (simp add: growTo_def)

lemma resize_after_shrink:
  assumes "0 < n" "nat n \<le> length (pairStates st)" "nat n \<le> length (lastPositions st)"
    "nat n \<le> length (velocities st)"
  shows "pairStates (resizeAuxiliary (adjustPeakCount n st)) = pairStates st \<and>
         lastPositions (resizeAuxiliary (adjustPeakCount n st)) = lastPositions st \<and>
         velocities (resizeAuxiliary (adjustPeakCount n st)) = velocities st \<and>
         length (peaks (resizeAuxiliary (adjustPeakCount n st))) = nat n"
  using assms
  by (simp add: resizeAuxiliary_def length_peaks_adjustPeakCount growTo_noop)

text \<open>
  C3, at the input where it fails (Scenario D). Ten agents, agents 2 and 7 paired; the
  population shrinks to five. After the resize step of the next tick the peaks are five,
  but the pair states, last positions and velocities still have ten entries, and agent 2
  still has the removed agent 7 as its partner.
\<close>

theorem shrink_keeps_stale_partner:
  "length (peaks (resizeAuxiliary (adjustPeakCount 5 tenState))) = 5 \<and>
   length (pairStates (resizeAuxiliary (adjustPeakCount 5 tenState))) = 10 \<and>
   length (lastPositions (resizeAuxiliary (adjustPeakCount 5 tenState))) = 10 \<and>
   length (velocities (resizeAuxiliary (adjustPeakCount 5 tenState))) = 10 \<and>
   partner (pairStates (resizeAuxiliary (adjustPeakCount 5 tenState)) ! 2) = 7"
proof -
  have l: "length (pairStates tenState) = 10" "length (lastPositions tenState) = 10"
    "length (velocities tenState) = 10"
    by (simp_all add: tenState_def engineWith_def tenPairs_def initPeaks_def)
  have p: "partner (pairStates tenState ! 2) = 7"
    by (simp add: tenState_def engineWith_def tenPairs_def)
  from resize_after_shrink [of 5 tenState] l p show ?thesis by simp
qed

subsection \<open>The claims about a whole tick\<close>

lemma wellPaired_unpaired:
  assumes "\<forall>s \<in> set (pairStates st). partner s = - 1"
  shows "wellPaired st"
  using assms by (simp add: wellPaired_def pairSymmetric_def headingsPresent_def)

lemma wellPaired_lowMidState: "wellPaired lowMidState"
  by (rule wellPaired_unpaired) (simp add: lowMidState_def engineWith_def newPairState_def)

text \<open>
  C1. Pairing symmetry: from a state whose links are mutual (and whose pairs have their
  shared heading), a tick runs to its end, and the links between the agents of the
  current population are mutual after the pairing pass, after the step of every agent
  in the force pass (so after any probabilistic break), and at the end of the tick:
  \<open>partner[i] = j\<close> if and only if \<open>partner[j] = i\<close>. The state at the end satisfies the
  hypothesis again, as does the engine the constructor builds.
\<close>

theorem pairing_links_mutual:
  assumes "wellPaired st"
  shows "\<exists>st2 st'. findPairs rnd (resizeAuxiliary st) = Some st2 \<and> mutualLinks st2 \<and>
           (\<forall>k \<le> length (peaks st).
               \<exists>s. forEach (movePeak rnd (swarmTargets (resizeAuxiliary st))) [0..<k] st2 = Some s \<and>
                   mutualLinks s) \<and>
           tick rnd st = Some st' \<and> mutualLinks st' \<and> wellPaired st' \<and>
           length (peaks st') = length (peaks st)"
  using assms by (rule tick_stages)

theorem pairing_links_mutual_witness:
  "wellPaired lowMidState \<and>
   (\<exists>st'. tick (\<lambda>_. 0) lowMidState = Some st' \<and> mutualLinks st' \<and> wellPaired st')"
proof -
  have w: "wellPaired lowMidState" by (rule wellPaired_lowMidState)
  from pairing_links_mutual [OF w, of "\<lambda>_. 0"] w show ?thesis by blast
qed



lemma wellPaired_pairedState: "wellPaired pairedState"
  by (simp add: wellPaired_def pairSymmetric_def headingsPresent_def pairedState_def
      engineWith_def newPairState_def less_Suc_eq arrayGet_def)

theorem break_skips_repulsion_witness:
  "0 < length (pairStates pairedState) \<and>
   applyPairingForces (\<lambda>_. 0) 0 (clearBreakFlag 0 pairedState) zeroVec =
     Some (the (applyPairingForces (\<lambda>_. 0) 0 (clearBreakFlag 0 pairedState) zeroVec)) \<and>
   partner (pairStates pairedState ! 0) \<noteq> - 1 \<and>
   partner (pairStates (fst (the (applyPairingForces (\<lambda>_. 0) 0 (clearBreakFlag 0 pairedState)
      zeroVec))) ! 0) = - 1 \<and>
   accumulateForces (\<lambda>_. 0) 0 pairedState =
     applyExplorationForces (\<lambda>_. 0) 0
       (fst (the (applyPairingForces (\<lambda>_. 0) 0 (clearBreakFlag 0 pairedState) zeroVec)))
       (snd (the (applyPairingForces (\<lambda>_. 0) 0 (clearBreakFlag 0 pairedState) zeroVec)))
       (time (fst (the (applyPairingForces (\<lambda>_. 0) 0 (clearBreakFlag 0 pairedState) zeroVec))))"
proof -
  have l: "0 < length (pairStates pairedState)" "0 < length (peaks pairedState)"
    "1 < length (peaks pairedState)"
    by (simp_all add: pairedState_def engineWith_def)
  have p: "partner (pairStates pairedState ! 0) = int 1"
    by (simp add: pairedState_def engineWith_def)
  have far: "\<not> vlength (subVectors (currentPyramidCenter (peaks pairedState ! 1))
                               (currentPyramidCenter (peaks pairedState ! 0))) < 0.000001"
    by (simp add: pairedState_def engineWith_def peakAt_def vlength_def lengthSq_def
        subVectors_def Vec_def)
  have fr: "pairMinFrames (motionSystem pairedState) < frames (pairStates pairedState ! 0) + 1"
    by (simp add: pairedState_def engineWith_def defaultMotion_def)
  have dr: "\<forall>n. (\<lambda>_. 0 :: real) n < pairBreakProb (motionSystem pairedState)"
    by (simp add: pairedState_def engineWith_def defaultMotion_def)
  from applyPairingForces_breaks [OF wellPaired_pairedState l(1,2) p l(3) far fr dr]
  obtain st1 f1 where
    r: "applyPairingForces (\<lambda>_. 0) 0 (clearBreakFlag 0 pairedState) zeroVec = Some (st1, f1)"
    and b: "partner (pairStates st1 ! 0) = - 1"
    by blast
  have q: "partner (pairStates pairedState ! 0) \<noteq> - 1" using p by simp
  from break_skips_repulsion [OF l(1) r q b]
  have "accumulateForces (\<lambda>_. 0) 0 pairedState
          = applyExplorationForces (\<lambda>_. 0) 0 st1 f1 (time st1)"
    by blast
  with l(1) q b show ?thesis by (simp add: r)
qed

subsection \<open>The horizontal plane\<close>

lemma flat_Vec [simp]: "flat (Vec a 0 c)"
  by (simp add: flat_def Vec_def)

lemma flat_zeroVec [simp]: "flat zeroVec"
  by (simp add: zeroVec_def)

lemma flat_ops [simp]:
  "flat a \<Longrightarrow> flat b \<Longrightarrow> flat (addVectors a b)"
  "flat a \<Longrightarrow> flat b \<Longrightarrow> flat (subVectors a b)"
  "flat a \<Longrightarrow> flat (multiplyScalar a s)"
  "flat a \<Longrightarrow> flat b \<Longrightarrow> flat (addScaledVector a b s)"
  "flat a \<Longrightarrow> flat b \<Longrightarrow> flat (lerp a b s)"
  "flat (setY a 0)"
  "flat (crossVectors (setY a 0) (Vec 0 1 0))"
  by (simp_all add: flat_def addVectors_def subVectors_def multiplyScalar_def
      addScaledVector_def lerp_def setY_def crossVectors_def Vec_def)

lemma flat_normalize [simp]: "flat a \<Longrightarrow> flat (normalize a)"
  by (simp add: normalize_def divideScalar_def)

lemma flat_setLength [simp]: "flat a \<Longrightarrow> flat (setLength a l)"
  by (simp add: setLength_def)

lemma flat_randomDirection [simp]: "flat (randomDirection rnd k)"
  by (simp add: randomDirection_def)

lemma flat_xz_update [simp]: "flat (f\<lparr>vx := a, vz := c\<rparr>) = flat f"
  by (simp add: flat_def)

lemma flat_wander [simp]: "flat (wander rnd k amount f) = flat f"
  by (simp add: wander_def)

lemma flat_pairSeparation [simp]: "flat u \<Longrightarrow> flat f \<Longrightarrow> flat (pairSeparation M u d f)"
  by (simp add: pairSeparation_def)

lemma flat_pairCohesion [simp]: "flat a \<Longrightarrow> flat b \<Longrightarrow> flat f \<Longrightarrow> flat (pairCohesion M a b f)"
  by (simp add: pairCohesion_def Let_def)

lemma flat_pairTangent [simp]:
  "flat a \<Longrightarrow> flat b \<Longrightarrow> flat la \<Longrightarrow> flat lb \<Longrightarrow> flat (pairTangent M a b la lb)"
  by (simp add: pairTangent_def Let_def)

lemma flat_jitterTangent [simp]: "flat (jitterTangent M r t)"
  by (simp add: jitterTangent_def Let_def)

lemma flat_updatedHeading [simp]:
  "flat a \<Longrightarrow> flat b \<Longrightarrow> flat la \<Longrightarrow> flat lb \<Longrightarrow> flat h \<Longrightarrow>
   flat (updatedHeading M r j a b la lb h)"
  by (simp add: updatedHeading_def Let_def)

lemma flat_pairedOffset [simp]:
  "flat a \<Longrightarrow> flat b \<Longrightarrow> flat h \<Longrightarrow> flat f \<Longrightarrow> flat (pairedOffset M rnd k a b h e f)"
  by (simp add: pairedOffset_def Let_def)

lemma flat_explorationDrift [simp]: "flat f \<Longrightarrow> flat (explorationDrift M seed scale t f)"
  by (simp add: explorationDrift_def Let_def)

lemma flat_boundaryPush [simp]: "flat r \<Longrightarrow> flat f \<Longrightarrow> flat (boundaryPush M r l f)"
  by (simp add: boundaryPush_def)

lemma flat_centerAvoidance [simp]:
  "flat r \<Longrightarrow> flat f \<Longrightarrow> flat (fst (centerAvoidance M rnd k r l f))"
  by (simp add: centerAvoidance_def Let_def)

lemma flat_limitVelocity [simp]: "flat v \<Longrightarrow> flat (limitVelocity M v)"
  by (simp add: limitVelocity_def)

lemma flat_generated: "v \<in> set (generateSwarmPeakPositions n t) \<Longrightarrow> flat v"
  by (auto simp: generateSwarmPeakPositions_def Let_def)

lemma flat_swarmTargets: "planar st \<Longrightarrow> v \<in> set (swarmTargets st) \<Longrightarrow> flat v"
  by (auto simp: swarmTargets_def planar_def bodyFlat_def flat_generated
           split: option.splits if_splits)

lemma bodyFlat_updates [simp]:
  "bodyFlat (st\<lparr>pairStates := ps\<rparr>) = bodyFlat st"
  "bodyFlat (st\<lparr>pairDirections := ds\<rparr>) = bodyFlat st"
  "bodyFlat (st\<lparr>rng := k\<rparr>) = bodyFlat st"
  "bodyFlat (st\<lparr>spatialGrid := g\<rparr>) = bodyFlat st"
  by (simp_all add: bodyFlat_def)

lemma bodyFlat_sameWorld: "sameWorld a b \<Longrightarrow> bodyFlat b = bodyFlat a"
  by (simp add: sameWorld_def bodyFlat_def)

lemma flatBreaks_modify:
  assumes "flatBreaks ps" and "\<And>s. flat (breakHeading s) \<Longrightarrow> flat (breakHeading (g s))"
  shows "flatBreaks (modify k g ps)"
  unfolding flatBreaks_def modify_def
proof
  fix s assume "s \<in> set (ps[k := g (ps ! k)])"
  then have "s \<in> insert (g (ps ! k)) (set ps)"
    using set_update_subset_insert by fastforce
  moreover have "\<not> k < length ps \<Longrightarrow> ps[k := g (ps ! k)] = ps" by (simp add: list_update_beyond)
  ultimately have "s \<in> set ps \<or> (k < length ps \<and> s = g (ps ! k))"
    using \<open>s \<in> set (ps[k := g (ps ! k)])\<close> by (cases "k < length ps") auto
  then show "flat (breakHeading s)"
    using assms by (auto simp: flatBreaks_def)
qed

lemma flatBreaks_update:
  "flatBreaks ps \<Longrightarrow> flat (breakHeading s) \<Longrightarrow> flatBreaks (ps[k := s])"
  unfolding flatBreaks_def by (auto dest: set_update_subset_insert [THEN subsetD])

lemma flatBreaks_decay: "flatBreaks ps \<Longrightarrow> flatBreaks (map decayPairState ps)"
  by (auto simp: flatBreaks_def decayPairState_def Let_def)

lemma flatBreaks_grow: "flatBreaks ps \<Longrightarrow> flatBreaks (growTo n newPairState ps)"
  by (auto simp: flatBreaks_def growTo_def newPairState_def)

lemma flatBreaks_breakCheckStep:
  "flatBreaks ps \<Longrightarrow> flatBreaks (breakCheckStep M pks k ps)"
  by (auto simp: breakCheckStep_def Let_def intro!: flatBreaks_modify split: option.splits)

lemma flatBreaks_breakCheck: "flatBreaks ps \<Longrightarrow> flatBreaks (breakCheck M pks ps)"
proof -
  have "flatBreaks ps \<Longrightarrow> flatBreaks (fold (breakCheckStep M pks) ks ps)" for ks
    by (induction ks arbitrary: ps) (simp_all add: flatBreaks_breakCheckStep)
  then show "flatBreaks ps \<Longrightarrow> flatBreaks (breakCheck M pks ps)"
    by (simp add: breakCheck_def)
qed

lemma flatBreaks_breakPair:
  "flatBreaks ps \<Longrightarrow> flat h \<Longrightarrow> flatBreaks (breakPair M i p h e ps)"
  by (auto simp: breakPair_def Let_def intro!: flatBreaks_modify split: option.splits)

lemma flatHeadings_append:
  "flatHeadings ds \<Longrightarrow> flatHeadings es \<Longrightarrow> flatHeadings (ds @ es)"
  by (auto simp: flatHeadings_def)

lemma flatHeadings_update:
  "flatHeadings ds \<Longrightarrow> flat h \<Longrightarrow> flatHeadings (ds[k := Some h])"
  unfolding flatHeadings_def by (auto dest: set_update_subset_insert [THEN subsetD])

lemma flatHeadings_arraySet:
  "flatHeadings ds \<Longrightarrow> flat h \<Longrightarrow> flatHeadings (arraySet ds k h)"
  unfolding arraySet_def
  by (auto simp: flatHeadings_update intro!: flatHeadings_append) (auto simp: flatHeadings_def)

lemma flatHeadings_get:
  "flatHeadings ds \<Longrightarrow> arrayGet ds q = Some (Some h) \<Longrightarrow> flat h"
proof -
  assume a: "flatHeadings ds" "arrayGet ds q = Some (Some h)"
  from a(2) have "nat q < length ds" "ds ! nat q = Some h"
    by (auto simp: arrayGet_def split: if_splits)
  then have "Some h \<in> set ds" by (metis nth_mem)
  with a(1) show "flat h" by (simp add: flatHeadings_def)
qed

lemma planar_resizeAuxiliary: "planar st \<Longrightarrow> planar (resizeAuxiliary st)"
  by (auto simp: planar_def bodyFlat_def resizeAuxiliary_def flatBreaks_def growTo_def
      newPairState_def)

lemma planar_beforeFormation: "planar st \<Longrightarrow> planar (beforeFormation st)"
  by (simp add: planar_def beforeFormation_def rebuildGrid_def flatBreaks_breakCheck
      flatBreaks_decay)

lemma planar_linkPair: "planar st \<Longrightarrow> planar (linkPair rnd i b st)"
  by (auto simp: planar_def linkPair_def Let_def flatHeadings_arraySet
           intro!: flatBreaks_modify split: option.splits)

lemma planar_formationStep:
  "planar st \<Longrightarrow> formationStep rnd i st = Some st' \<Longrightarrow> planar st'"
  by (auto simp: formationStep_def planar_linkPair split: option.splits if_splits)

lemma planar_findPairs:
  assumes "planar st" "findPairs rnd st = Some st'"
  shows "planar st'"
  using assms(2) unfolding findPairs_eq
  by (rule forEach_invariant) (use assms(1) in \<open>auto simp: planar_beforeFormation planar_formationStep\<close>)

lemma arrayGet_mem: "arrayGet xs q = Some x \<Longrightarrow> x \<in> set xs"
  by (auto simp: arrayGet_def split: if_splits)

lemma planar_pushDirection: "planar s \<Longrightarrow> planar (pushDirection rnd s)"
  by (auto simp: planar_def pushDirection_def flatHeadings_def)

lemma planar_growPairDirections: "planar st \<Longrightarrow> planar (growPairDirections rnd st)"
proof -
  have "planar s \<Longrightarrow> planar (fold (\<lambda>_. pushDirection rnd) ks s)" for ks :: "nat list" and s
    by (induction ks arbitrary: s) (simp_all add: planar_pushDirection)
  then show "planar st \<Longrightarrow> planar (growPairDirections rnd st)"
    by (simp add: growPairDirections_def)
qed

lemma planar_clearBreakFlag: "planar st \<Longrightarrow> planar (clearBreakFlag i st)"
  by (auto simp: planar_def clearBreakFlag_def intro!: flatBreaks_modify)

lemma planar_peak:
  "planar st \<Longrightarrow> arrayGet (peaks st) q = Some p \<Longrightarrow> flat (currentPyramidCenter p)"
  by (auto simp: planar_def bodyFlat_def dest: arrayGet_mem)

lemma planar_last: "planar st \<Longrightarrow> arrayGet (lastPositions st) q = Some l \<Longrightarrow> flat l"
  by (auto simp: planar_def bodyFlat_def dest: arrayGet_mem)

lemma planar_last_or:
  "planar st \<Longrightarrow> flat a \<Longrightarrow>
   flat (case arrayGet (lastPositions st) q of Some l \<Rightarrow> l | None \<Rightarrow> a)"
  by (auto simp: planar_last split: option.splits)

lemma pairedForces_planar:
  assumes p: "planar st" and a: "flat (currentPyramidCenter peak)"
    and b: "flat (currentPyramidCenter pk)" and f: "flat f"
    and run: "pairedForces rnd i peak pk st f = Some (st', f')"
  shows "planar st' \<and> flat f'"
proof -
  obtain h0 where h0: "arrayGet (pairDirections st) (min (int i) (partner (pairStates st ! i)))
                        = Some (Some h0)"
    using run unfolding pairedForces_def Let_def by (auto split: option.splits)
  have fh: "flat h0" using p h0 by (auto simp: planar_def dest: flatHeadings_get)
  define lA where "lA = (case arrayGet (lastPositions st) (int i) of
                           Some l \<Rightarrow> l | None \<Rightarrow> currentPyramidCenter peak)"
  define lB where "lB = (case arrayGet (lastPositions st) (partner (pairStates st ! i)) of
                           Some l \<Rightarrow> l | None \<Rightarrow> currentPyramidCenter pk)"
  have la: "flat lA" and lb: "flat lB"
    unfolding lA_def lB_def by (rule planar_last_or [OF p a], rule planar_last_or [OF p b])
  have pp: "bodyFlat st" "flatHeadings (pairDirections st)" "flatBreaks (pairStates st)"
    using p by (simp_all add: planar_def)
  show ?thesis
    using run
    unfolding pairedForces_def Let_def h0 option.case lA_def [symmetric] lB_def [symmetric]
    by (auto simp: planar_def pp fh la lb a b f flatHeadings_update flatBreaks_breakPair
             split: if_splits)
qed

lemma soloForces_planar:
  assumes p: "planar st" and i: "i < length (pairStates st)" and f: "flat f"
  shows "planar (fst (soloForces rnd i st f)) \<and> flat (snd (soloForces rnd i st f))"
proof -
  have h: "flat (breakHeading (pairStates st ! i))"
    using p i by (simp add: planar_def flatBreaks_def)
  show ?thesis
    using p h f by (simp add: soloForces_def Let_def planar_def flatBreaks_update)
qed

lemma applyPairingForces_planar:
  assumes p: "planar st0" and f: "flat f"
    and run: "applyPairingForces rnd i st0 f = Some (st1, f1)"
  shows "planar st1 \<and> flat f1"
proof -
  define st where "st = growPairDirections rnd st0"
  have ps: "planar st" using p by (simp add: st_def planar_growPairDirections)
  define sta where
    "sta = st\<lparr>pairStates := modify i (\<lambda>s. s\<lparr>frames := frames s + 1\<rparr>) (pairStates st)\<rparr>"
  have pa: "planar sta"
    using ps by (auto simp: sta_def planar_def intro!: flatBreaks_modify)
  from run obtain state where g: "arrayGet (pairStates st) (int i) = Some state"
    unfolding applyPairingForces_def Let_def st_def [symmetric]
    by (auto split: option.splits)
  then have i: "i < length (pairStates st)" by (auto simp: arrayGet_def split: if_splits)
  show ?thesis
  proof (cases "partner state = - 1")
    case True
    then have "soloForces rnd i st f = (st1, f1)"
      using run g unfolding applyPairingForces_def Let_def st_def [symmetric] by simp
    with soloForces_planar [OF ps i f, of rnd] show ?thesis by simp
  next
    case False
    then have r: "(case arrayGet (peaks sta) (partner state) of
                  None \<Rightarrow> Some (sta, f)
                | Some pk \<Rightarrow>
                    (case arrayGet (peaks sta) (int i) of
                       None \<Rightarrow> None
                     | Some peak \<Rightarrow>
                         if vlength (subVectors (currentPyramidCenter pk) (currentPyramidCenter peak))
                              < 0.000001
                         then Some (sta, f)
                         else pairedForces rnd i peak pk sta f)) = Some (st1, f1)"
      using run g unfolding applyPairingForces_def Let_def st_def [symmetric] sta_def by simp
    show ?thesis
    proof (cases "arrayGet (peaks sta) (partner state)")
      case None
      with r pa f show ?thesis by simp
    next
      case (Some pk)
      with r obtain peak where pk: "arrayGet (peaks sta) (int i) = Some peak"
        by (auto split: option.splits)
      show ?thesis
      proof (cases "vlength (subVectors (currentPyramidCenter pk) (currentPyramidCenter peak))
                              < 0.000001")
        case True
        with r Some pk pa f show ?thesis by simp
      next
        case False
        with r Some pk have "pairedForces rnd i peak pk sta f = Some (st1, f1)" by simp
        from pairedForces_planar [OF pa planar_peak [OF pa pk] planar_peak [OF pa Some] f this]
        show ?thesis .
      qed
    qed
  qed
qed

lemma repulsionStep_flat:
  assumes "planar st" "flat (currentPyramidCenter peak)" "flat f"
  shows "flat (repulsionStep st index peak j f)"
proof -
  have o: "flat (subVectors (currentPyramidCenter peak) (currentPyramidCenter other))"
    if "arrayGet (peaks st) (int j) = Some other" for other
    using planar_peak [OF assms(1) that] assms(2) by simp
  show ?thesis
    unfolding repulsionStep_def Let_def
    using o assms(3) by (auto split: option.splits prod.splits)
qed

lemma applyRepulsionForces_flat:
  assumes "planar st" "flat f" "applyRepulsionForces i st f = Some f'"
  shows "flat f'"
proof -
  have fo: "flat (fold (repulsionStep st i peak) js g)"
    if "flat (currentPyramidCenter peak)" "flat g" for peak js g
    using that(2)
    by (induction js arbitrary: g) (simp_all add: repulsionStep_flat [OF assms(1) that(1)])
  from assms(3) obtain peak where pk: "arrayGet (peaks st) (int i) = Some peak"
    by (auto simp: applyRepulsionForces_def split: option.splits)
  with assms(3) fo [OF planar_peak [OF assms(1) pk] assms(2)] show ?thesis
    by (auto simp: applyRepulsionForces_def Let_def)
qed

lemma applyExplorationForces_planar:
  assumes "planar st" "flat f" "applyExplorationForces rnd i st f t = Some (st', f')"
  shows "planar st' \<and> flat f'"
proof -
  from assms(3) obtain peak where pk: "arrayGet (peaks st) (int i) = Some peak"
    by (auto simp: applyExplorationForces_def split: option.splits)
  have r: "flat (if c then normalize (setY (currentPyramidCenter peak) 0)
                 else setY (currentPyramidCenter peak) 0)" for c
    by simp
  show ?thesis
    using assms(3) assms(1,2) unfolding applyExplorationForces_def pk option.case Let_def split_beta
    by (auto simp: planar_def r simp del: if_split split del: if_split)
qed

lemma accumulateForces_planar:
  assumes "planar st" "accumulateForces rnd i st = Some (st', f')"
  shows "planar st' \<and> flat f'"
proof -
  from assms(2) obtain st1 f1 where
    a: "applyPairingForces rnd i (clearBreakFlag i st) zeroVec = Some (st1, f1)"
    by (auto simp: accumulateForces_def split: option.splits)
  from applyPairingForces_planar [OF planar_clearBreakFlag [OF assms(1)] flat_zeroVec a]
  have p1: "planar st1" and f1: "flat f1" by simp_all
  from assms(2) a obtain f2 where
    b: "(if \<not> breakThisFrame (pairStates st1 ! i)
         then applyRepulsionForces i st1 f1 else Some f1) = Some f2"
    and c: "applyExplorationForces rnd i st1 f2 (time st1) = Some (st', f')"
    by (auto simp: accumulateForces_def split: option.splits)
  have f2: "flat f2"
    using b f1 applyRepulsionForces_flat [OF p1 f1] by (auto split: if_splits)
  from applyExplorationForces_planar [OF p1 f2 c] show ?thesis .
qed

lemma flat_set_update:
  "(\<forall>v \<in> set xs. P v) \<Longrightarrow> P x \<Longrightarrow> (\<forall>v \<in> set (xs[k := x]). P v)"
  by (auto dest: set_update_subset_insert [THEN subsetD])

lemma integrate_planar:
  assumes p: "planar st" and pk: "arrayGet (peaks st) (int i) = Some peak"
    and b: "flat baseTarget" and f: "flat f"
  shows "planar (integrate i peak baseTarget f st)"
proof -
  define vs where "vs = (if i < length (velocities st) then velocities st
                else velocities st @ replicate (Suc i - length (velocities st)) zeroVec)"
  have mem: "peak \<in> set (peaks st)" using pk by (rule arrayGet_mem)
  have c: "flat (currentPyramidCenter peak)" using p pk by (rule planar_peak)
  have t: "\<forall>t. evolvingTargetCenter peak = Some t \<longrightarrow> flat t"
    using p mem by (simp add: planar_def bodyFlat_def)
  have vsf: "\<forall>v \<in> set vs. flat v"
    using p by (auto simp: vs_def planar_def bodyFlat_def)
  have i: "i < length vs" by (simp add: vs_def)
  then have v: "flat (vs ! i)" using vsf by simp
  have ps: "\<forall>q \<in> set (peaks st). flat (currentPyramidCenter q) \<and>
              (\<forall>t. evolvingTargetCenter q = Some t \<longrightarrow> flat t)"
    using p by (simp add: planar_def bodyFlat_def)
  define f1 where "f1 = multiplyScalar f 0.85"
  define fo where "fo = (if vlength f1 > maxOffset (motionSystem st)
                         then setLength f1 (maxOffset (motionSystem st)) else f1)"
  have ffo: "flat fo" using f by (simp add: fo_def f1_def)
  define w where "w = (if (case arrayGet (pairStates st) (int i) of
                      None \<Rightarrow> False | Some state \<Rightarrow> partner state \<noteq> - 1)
                       then swarmWeight (motionSystem st) * 0.55 else swarmWeight (motionSystem st))"
  define v1 where "v1 = limitVelocity (motionSystem st)
     (lerp (vs ! i)
        (multiplyScalar
           (subVectors (addVectors (lerp (currentPyramidCenter peak) baseTarget w) fo)
              (currentPyramidCenter peak))
           (followLerp (motionSystem st))) 0.3)"
  have fv1: "flat v1" using v c b ffo by (simp add: v1_def)
  define peak1 where
    "peak1 = peak\<lparr>currentPyramidCenter := addVectors (currentPyramidCenter peak) v1\<rparr>"
  have fp1: "flat (currentPyramidCenter peak1) \<and>
             (\<forall>t. evolvingTargetCenter peak1 = Some t \<longrightarrow> flat t)"
    using c fv1 t by (simp add: peak1_def)
  have eq: "integrate i peak baseTarget f st =
              st\<lparr>velocities := vs[i := v1], peaks := (peaks st)[i := peak1]\<rparr>"
    unfolding integrate_def Let_def vs_def [symmetric] f1_def [symmetric] fo_def [symmetric]
      w_def [symmetric] v1_def [symmetric] peak1_def [symmetric] ..
  have "bodyFlat (st\<lparr>velocities := vs[i := v1], peaks := (peaks st)[i := peak1]\<rparr>)"
    using p flat_set_update [OF vsf fv1, of i]
      flat_set_update [of "peaks st" "\<lambda>q. flat (currentPyramidCenter q) \<and>
              (\<forall>t. evolvingTargetCenter q = Some t \<longrightarrow> flat t)" peak1 i, OF ps fp1]
    by (simp add: planar_def bodyFlat_def)
  then show ?thesis using p by (simp add: eq planar_def)
qed

lemma softLock_planar:
  assumes p: "planar st" and pk: "arrayGet (peaks st) (int i) = Some peak"
    and tg: "evolvingTargetCenter peak = Some target"
  shows "planar (softLock i peak target st)"
proof -
  have mem: "peak \<in> set (peaks st)" using pk by (rule arrayGet_mem)
  have c: "flat (currentPyramidCenter peak)" using p pk by (rule planar_peak)
  have t: "flat target" using p mem tg by (simp add: planar_def bodyFlat_def)
  have ps: "\<forall>q \<in> set (peaks st). flat (currentPyramidCenter q) \<and>
              (\<forall>t. evolvingTargetCenter q = Some t \<longrightarrow> flat t)"
    using p by (simp add: planar_def bodyFlat_def)
  define peak1 where "peak1 =
     (if distanceTo (lerp (currentPyramidCenter peak) target
                (case evolvingMoveSpeed peak of Some v \<Rightarrow> v | None \<Rightarrow> 0.1)) target < 0.02
      then peak\<lparr>currentPyramidCenter := target, evolvingLock := True\<rparr>
      else peak\<lparr>currentPyramidCenter := lerp (currentPyramidCenter peak) target
                (case evolvingMoveSpeed peak of Some v \<Rightarrow> v | None \<Rightarrow> 0.1)\<rparr>)"
  have fp1: "flat (currentPyramidCenter peak1) \<and>
             (\<forall>t. evolvingTargetCenter peak1 = Some t \<longrightarrow> flat t)"
    using c t tg by (simp add: peak1_def)
  have eq: "softLock i peak target st = st\<lparr>peaks := (peaks st)[i := peak1]\<rparr>"
    unfolding softLock_def Let_def peak1_def [symmetric] ..
  have "bodyFlat (st\<lparr>peaks := (peaks st)[i := peak1]\<rparr>)"
    using p flat_set_update [of "peaks st" "\<lambda>q. flat (currentPyramidCenter q) \<and>
              (\<forall>t. evolvingTargetCenter q = Some t \<longrightarrow> flat t)" peak1 i, OF ps fp1]
    by (simp add: planar_def bodyFlat_def)
  then show ?thesis using p by (simp add: eq planar_def)
qed

lemma accumulateForces_peaks:
  assumes "accumulateForces rnd i st = Some (st1, f)"
  shows "peaks st1 = peaks st"
  using sameWorld_accumulateForces [OF assms, where a = st] by (simp add: sameWorld_def)

lemma movePeak_planar:
  assumes p: "planar st" and sp: "\<forall>v \<in> set sw. flat v"
    and run: "movePeak rnd sw i st = Some st'"
  shows "planar st'"
proof (cases "arrayGet (peaks st) (int i)")
  case None
  with run p show ?thesis by (simp add: movePeak_def)
next
  case (Some peak)
  show ?thesis
  proof (cases "skipped st peak")
    case True
    with run Some p show ?thesis by (auto simp: movePeak_def skipped_def split: if_splits)
  next
    case False
    then have ns: "\<not> (categoryFilterActive st \<and> \<not> categoryVisible peak)" "\<not> stopAllMovement st"
      "\<not> (evolvingActive st \<and> evolvingLock peak)"
      by (auto simp: skipped_def)
    show ?thesis
    proof (cases "if evolvingLock peak then None else evolvingTargetCenter peak")
      case (Some target)
      then have tg: "evolvingTargetCenter peak = Some target" by (auto split: if_splits)
      have "st' = softLock i peak target st"
        using run \<open>arrayGet (peaks st) (int i) = Some peak\<close> ns Some
        by (auto simp: movePeak_def)
      with softLock_planar [OF p \<open>arrayGet (peaks st) (int i) = Some peak\<close> tg]
      show ?thesis by simp
    next
      case None
      with run \<open>arrayGet (peaks st) (int i) = Some peak\<close> ns
      obtain st1 f bt where a: "accumulateForces rnd i st = Some (st1, f)"
        and b: "arrayGet sw (int i) = Some bt"
        and e: "st' = integrate i peak bt f st1"
        by (auto simp: movePeak_def split: option.splits)
      from accumulateForces_planar [OF p a] have p1: "planar st1" and ff: "flat f" by simp_all
      have pk1: "arrayGet (peaks st1) (int i) = Some peak"
        using accumulateForces_peaks [OF a] \<open>arrayGet (peaks st) (int i) = Some peak\<close> by simp
      have fb: "flat bt" using sp arrayGet_mem [OF b] by simp
      from integrate_planar [OF p1 pk1 fb ff] e show ?thesis by simp
    qed
  qed
qed

lemma recordLastPositions_planar:
  assumes "planar st"
  shows "planar (recordLastPositions st)"
proof -
  have step: "\<forall>v \<in> set (fold (\<lambda>i lp. (if i < length lp then lp else lp @ [zeroVec])
                         [i := currentPyramidCenter (peaks st ! i)]) ks lp). flat v"
    if "\<forall>v \<in> set lp. flat v" "\<forall>k \<in> set ks. k < length (peaks st)" for ks lp
    using that
  proof (induction ks arbitrary: lp)
    case Nil
    then show ?case by simp
  next
    case (Cons k ks)
    have c: "flat (currentPyramidCenter (peaks st ! k))"
      using assms Cons.prems(2) by (simp add: planar_def bodyFlat_def)
    have e: "\<forall>v \<in> set (if k < length lp then lp else lp @ [zeroVec]). flat v"
      using Cons.prems(1) by simp
    have "\<forall>v \<in> set ((if k < length lp then lp else lp @ [zeroVec])
                       [k := currentPyramidCenter (peaks st ! k)]). flat v"
      by (rule flat_set_update [OF e c])
    from Cons.IH [OF this] Cons.prems(2) show ?case by simp
  qed
  have "\<forall>v \<in> set (lastPositions st). flat v" using assms by (simp add: planar_def bodyFlat_def)
  from step [OF this, of "[0..<length (peaks st)]"] assms show ?thesis
    by (simp add: recordLastPositions_def planar_def bodyFlat_def)
qed

lemma tick_planar:
  assumes p: "planar st" and run: "tick rnd st = Some st'"
  shows "planar st'"
proof -
  define st1 where "st1 = resizeAuxiliary st"
  define sw where "sw = swarmTargets st1"
  have p1: "planar st1" using p by (simp add: st1_def planar_resizeAuxiliary)
  have fsw: "\<forall>v \<in> set sw. flat v" using flat_swarmTargets [OF p1] by (simp add: sw_def)
  from run obtain st2 st3 where fp: "findPairs rnd st1 = Some st2"
    and loop: "forEach (movePeak rnd sw) [0..<length (peaks st2)] st2 = Some st3"
    and e: "st' = recordLastPositions st3"
    unfolding tick_def Let_def st1_def [symmetric] sw_def [symmetric]
    by (auto split: option.splits)
  have p2: "planar st2" using p1 fp by (rule planar_findPairs)
  have p3: "planar st3"
    using loop
    by (rule forEach_invariant) (use p2 fsw in \<open>auto intro: movePeak_planar\<close>)
  then show ?thesis by (simp add: e recordLastPositions_planar)
qed

subsection \<open>A single agent above the plane\<close>

lemma soloForces_flat:
  "flat (breakHeading (pairStates st ! i)) \<Longrightarrow> flat f \<Longrightarrow> flat (snd (soloForces rnd i st f))"
  by (simp add: soloForces_def Let_def)

lemma repulsionStep_lone:
  assumes "length (peaks st) = 1"
  shows "repulsionStep st 0 peak j f = f"
proof (cases "j = 0")
  case True
  then show ?thesis by (simp add: repulsionStep_def Let_def)
next
  case False
  then have "arrayGet (peaks st) (int j) = None" using assms by (simp add: arrayGet_def)
  with False show ?thesis by (simp add: repulsionStep_def Let_def)
qed

lemma applyRepulsionForces_lone:
  assumes "length (peaks st) = 1" and "applyRepulsionForces 0 st f = Some f'"
  shows "f' = f"
proof -
  have "fold (repulsionStep st 0 peak) js g = g" for peak js g
    by (induction js) (simp_all add: repulsionStep_lone [OF assms(1)])
  with assms(2) show ?thesis
    by (auto simp: applyRepulsionForces_def Let_def split: option.splits)
qed

lemma applyExplorationForces_flat:
  assumes "flat f" and "applyExplorationForces rnd i st f t = Some (st', f')"
  shows "flat f'"
proof -
  from assms(2) obtain peak where pk: "arrayGet (peaks st) (int i) = Some peak"
    by (auto simp: applyExplorationForces_def split: option.splits)
  have r: "flat (if c then normalize (setY (currentPyramidCenter peak) 0)
                 else setY (currentPyramidCenter peak) 0)" for c
    by simp
  show ?thesis
    using assms(2) assms(1) unfolding applyExplorationForces_def pk option.case Let_def split_beta
    by (auto simp: r simp del: if_split split del: if_split)
qed

lemma lone_force_flat:
  assumes one: "length (peaks st) = 1" and l: "0 < length (pairStates st)"
    and solo: "partner (pairStates st ! 0) = - 1"
    and h: "flat (breakHeading (pairStates st ! 0))"
    and run: "accumulateForces rnd 0 st = Some (st1, f)"
  shows "flat f"
proof -
  from run obtain sa fa where
    a: "applyPairingForces rnd 0 (clearBreakFlag 0 st) zeroVec = Some (sa, fa)"
    by (auto simp: accumulateForces_def split: option.splits)
  define stg where "stg = growPairDirections rnd (clearBreakFlag 0 st)"
  have n: "pairStates stg ! 0 = (pairStates st ! 0)\<lparr>breakThisFrame := False\<rparr>"
    using l by (simp add: stg_def clearBreakFlag_nth)
  have lg: "0 < length (pairStates stg)" using l by (simp add: stg_def)
  have "soloForces rnd 0 stg zeroVec = (sa, fa)"
    using a n lg solo unfolding applyPairingForces_def Let_def stg_def [symmetric]
    by (simp add: arrayGet_def)
  with soloForces_flat [of stg 0 zeroVec rnd] n h have fa: "flat fa" by simp
  have "sameWorld (clearBreakFlag 0 st) sa"
    using sameWorld_applyPairingForces [OF a, where a = "clearBreakFlag 0 st"] by simp
  then have pa: "length (peaks sa) = 1" using one by (simp add: sameWorld_def)
  from run a obtain f2 where
    b: "(if \<not> breakThisFrame (pairStates sa ! 0)
         then applyRepulsionForces 0 sa fa else Some fa) = Some f2"
    and c: "applyExplorationForces rnd 0 sa f2 (time sa) = Some (st1, f)"
    by (auto simp: accumulateForces_def split: option.splits)
  have "f2 = fa" using b applyRepulsionForces_lone [OF pa] by (auto split: if_splits)
  with fa applyExplorationForces_flat [OF _ c] show ?thesis by simp
qed

lemma limitVelocity_sign:
  assumes "0 < maxVelocity M" and "vy v < 0"
  shows "vy (limitVelocity M v) < 0"
proof (cases "vlength v > maxVelocity M")
  case True
  then have l: "0 < vlength v" using assms(1) by simp
  have "vy (limitVelocity M v) = vy v * (1 / vlength v) * maxVelocity M"
    using True l
    by (simp add: limitVelocity_def setLength_def normalize_def divideScalar_def
        multiplyScalar_def Vec_def)
  moreover have "vy v * (1 / vlength v) * maxVelocity M < 0"
    using assms l by (simp add: mult_neg_pos divide_neg_pos)
  ultimately show ?thesis by simp
next
  case False
  with assms(2) show ?thesis by (simp add: limitVelocity_def)
qed

lemma integrate_sinks:
  assumes i: "i < length (peaks st)" "i < length (velocities st)"
    and v: "flat (velocities st ! i)" and b: "flat baseTarget" and f: "flat f"
    and c: "0 < vy (currentPyramidCenter peak)"
    and M: "0 < swarmWeight (motionSystem st)" "0 < followLerp (motionSystem st)"
           "0 < maxVelocity (motionSystem st)"
  shows "vy (currentPyramidCenter (peaks (integrate i peak baseTarget f st) ! i))
           < vy (currentPyramidCenter peak)"
proof -
  define f1 where "f1 = multiplyScalar f 0.85"
  define fo where "fo = (if vlength f1 > maxOffset (motionSystem st)
                         then setLength f1 (maxOffset (motionSystem st)) else f1)"
  have "flat fo" using f by (simp add: fo_def f1_def)
  then have ffo: "vy fo = 0" by (simp add: flat_def)
  define w where "w = (if (case arrayGet (pairStates st) (int i) of
                      None \<Rightarrow> False | Some state \<Rightarrow> partner state \<noteq> - 1)
                       then swarmWeight (motionSystem st) * 0.55 else swarmWeight (motionSystem st))"
  have w: "0 < w" using M(1) by (simp add: w_def)
  define dv where "dv = multiplyScalar
           (subVectors (addVectors (lerp (currentPyramidCenter peak) baseTarget w) fo)
              (currentPyramidCenter peak))
           (followLerp (motionSystem st))"
  have "vy dv = - (vy (currentPyramidCenter peak) * w) * followLerp (motionSystem st)"
    using b ffo
    by (simp add: dv_def multiplyScalar_def subVectors_def addVectors_def lerp_def Vec_def
        flat_def)
  then have dvn: "vy dv < 0" using c w M(2) by (simp add: mult_pos_pos)
  define vs where "vs = (if i < length (velocities st) then velocities st
                else velocities st @ replicate (Suc i - length (velocities st)) zeroVec)"
  have vs: "vs = velocities st" using i(2) by (simp add: vs_def)
  define v0 where "v0 = lerp (vs ! i) dv 0.3"
  have "vy v0 = vy dv * 0.3" using v by (simp add: v0_def vs lerp_def Vec_def flat_def)
  then have v0n: "vy v0 < 0" using dvn by simp
  define v1 where "v1 = limitVelocity (motionSystem st) v0"
  have v1n: "vy v1 < 0" unfolding v1_def using M(3) v0n by (rule limitVelocity_sign)
  define peak1 where
    "peak1 = peak\<lparr>currentPyramidCenter := addVectors (currentPyramidCenter peak) v1\<rparr>"
  have eq: "integrate i peak baseTarget f st =
              st\<lparr>velocities := vs[i := v1], peaks := (peaks st)[i := peak1]\<rparr>"
    unfolding integrate_def Let_def vs_def [symmetric] f1_def [symmetric] fo_def [symmetric]
      w_def [symmetric] dv_def [symmetric] v0_def [symmetric] v1_def [symmetric]
      peak1_def [symmetric] ..
  have "vy (currentPyramidCenter peak1) = vy (currentPyramidCenter peak) + vy v1"
    by (simp add: peak1_def addVectors_def Vec_def)
  with v1n i(1) show ?thesis by (simp add: eq)
qed

lemma swarmTargets_unfrozen:
  "frozenSwarmPositions st = None \<Longrightarrow> v \<in> set (swarmTargets st) \<Longrightarrow> flat v"
  by (auto simp: swarmTargets_def flat_generated)

lemma findPairs_raisedState:
  "findPairs rnd raisedState = Some (rebuildGrid raisedState)"
  by (simp add: raisedState_def engineWith_def findPairs_def rebuildGrid_def insertAll_def
      SpatialGrid_insert_def SpatialGrid_hash_def SpatialGrid_clear_def Vec_def
      peakAt_def Let_def decayPairState_def newPairState_def breakCheck_def breakCheckStep_def
      formationStep_def categoryOf_def arrayGet_def)

lemma resizeAuxiliary_raisedState: "resizeAuxiliary raisedState = raisedState"
  by (simp add: resizeAuxiliary_def growTo_def raisedState_def engineWith_def)


lemma planar_pairedState: "planar pairedState"
  by (simp add: planar_def bodyFlat_def flatHeadings_def flatBreaks_def pairedState_def
      engineWith_def peakAt_def newPairState_def)

subsection \<open>The vertical component\<close>




end
